theory Spec2Isabelle
  imports Main "HOL-Library.Sublist"
begin

section \<open>Byte strings and the helpers of package strings\<close>

text \<open>
  A Go string is a sequence of bytes; it is modelled as \<open>string\<close> (a list of 8-bit
  characters). The functions below model the functions of Go's package \<open>strings\<close> that
  the crawler and package \<open>net/url\<close> call. They are part of the Go standard library,
  not of the repository, and are written from the library's documented behaviour.
\<close>

definition byte :: "char \<Rightarrow> nat" where
  "byte c = of_char c"

definition HasPrefix :: "string \<Rightarrow> string \<Rightarrow> bool" where
  "HasPrefix s p = prefix p s"

definition HasSuffix :: "string \<Rightarrow> string \<Rightarrow> bool" where
  "HasSuffix s x = suffix x s"

text \<open>\<open>strings.Index\<close>: the position of the first occurrence, \<open>None\<close> for -1.\<close>

fun Index :: "string \<Rightarrow> string \<Rightarrow> nat option" where
  "Index [] sep = (if sep = [] then Some 0 else None)"
| "Index (c # cs) sep =
     (if prefix sep (c # cs) then Some 0 else map_option Suc (Index cs sep))"

definition LastIndex :: "string \<Rightarrow> string \<Rightarrow> nat option" where
  "LastIndex s sep =
     (case Index (rev s) (rev sep) of
        None \<Rightarrow> None
      | Some j \<Rightarrow> Some (length s - j - length sep))"

definition Contains :: "string \<Rightarrow> string \<Rightarrow> bool" where
  "Contains s sub = (Index s sub \<noteq> None)"

text \<open>\<open>strings.Cut\<close>: the text before and after the first occurrence of \<open>sep\<close>.\<close>

definition Cut :: "string \<Rightarrow> string \<Rightarrow> string \<times> string \<times> bool" where
  "Cut s sep =
     (case Index s sep of
        Some i \<Rightarrow> (take i s, drop (i + length sep) s, True)
      | None \<Rightarrow> (s, [], False))"

text \<open>\<open>strings.Count\<close> for a non-empty separator: the non-overlapping occurrences.\<close>

fun Count :: "string \<Rightarrow> string \<Rightarrow> nat" where
  "Count [] sep = 0"
| "Count (c # cs) sep =
     (if prefix sep (c # cs) then Suc (Count (drop (length sep - 1) cs) sep)
      else Count cs sep)"

text \<open>
  \<open>strings.Split(s, sep)\<close>: \<open>splitOn sep cur rest\<close> scans \<open>rest\<close> with \<open>cur\<close> the piece
  read since the last separator. The empty separator (Go explodes the string into
  UTF-8 sequences) is never used by the program; it is modelled bytewise.
\<close>

fun splitOn :: "string \<Rightarrow> string \<Rightarrow> string \<Rightarrow> string list" where
  "splitOn sep cur [] = [cur]"
| "splitOn sep cur (c # cs) =
     (if prefix sep (c # cs) then cur # splitOn sep [] (drop (length sep - 1) cs)
      else splitOn sep (cur @ [c]) cs)"

definition Split :: "string \<Rightarrow> string \<Rightarrow> string list" where
  "Split s sep = (if sep = [] then map (\<lambda>c. [c]) s else splitOn sep [] s)"

definition isUpper :: "char \<Rightarrow> bool" where
  "isUpper c = (65 \<le> byte c \<and> byte c \<le> 90)"

definition isLower :: "char \<Rightarrow> bool" where
  "isLower c = (97 \<le> byte c \<and> byte c \<le> 122)"

definition isDigit :: "char \<Rightarrow> bool" where
  "isDigit c = (48 \<le> byte c \<and> byte c \<le> 57)"

text \<open>\<open>strings.ToLower\<close>, used on the scheme only, whose bytes are ASCII.\<close>

definition ToLower :: "string \<Rightarrow> string" where
  "ToLower s = map (\<lambda>c. if isUpper c then char_of (byte c + 32) else c) s"

section \<open>Package net/url\<close>

text \<open>
  \<open>url.Parse\<close>, \<open>(*URL).IsAbs\<close>, \<open>(*URL).ResolveReference\<close> and \<open>(*URL).String\<close>
  belong to the Go standard library. The model follows the library's source
  (net/url/url.go, Go 1.21) function by function, bytes for bytes; a request-URI
  parse (\<open>viaRequest\<close>) is not needed and left out.
\<close>

datatype url_error =
    InvalidControlCharacter
  | MissingProtocolScheme
  | FirstPathSegmentColon
  | EscapeError string
  | InvalidHostError string
  | MissingBracket
  | InvalidPort string
  | InvalidUserinfo

datatype encoding =
    encodePath
  | encodePathSegment
  | encodeHost
  | encodeZone
  | encodeUserPassword
  | encodeQueryComponent
  | encodeFragment

record Userinfo =
  username :: string
  password :: string
  passwordSet :: bool

record URL =
  Scheme :: string
  Opaque :: string
  User :: "Userinfo option"
  Host :: string
  Path :: string
  RawPath :: string
  OmitHost :: bool
  ForceQuery :: bool
  RawQuery :: string
  Fragment :: string
  RawFragment :: string

definition emptyURL :: URL where
  "emptyURL = \<lparr>Scheme = [], Opaque = [], User = None, Host = [], Path = [], RawPath = [],
     OmitHost = False, ForceQuery = False, RawQuery = [], Fragment = [], RawFragment = []\<rparr>"

definition ishex :: "char \<Rightarrow> bool" where
  "ishex c = (isDigit c \<or> (97 \<le> byte c \<and> byte c \<le> 102) \<or> (65 \<le> byte c \<and> byte c \<le> 70))"

definition unhex :: "char \<Rightarrow> nat" where
  "unhex c =
     (if isDigit c then byte c - 48
      else if 97 \<le> byte c \<and> byte c \<le> 102 then byte c - 97 + 10
      else if 65 \<le> byte c \<and> byte c \<le> 70 then byte c - 65 + 10
      else 0)"

definition upperhex :: "nat \<Rightarrow> char" where
  "upperhex n = ''0123456789ABCDEF'' ! (n mod 16)"

text \<open>\<open>shouldEscape\<close>: whether a byte must be percent-escaped in the given part.\<close>

definition shouldEscape :: "char \<Rightarrow> encoding \<Rightarrow> bool" where
  "shouldEscape c mode =
     (if isLower c \<or> isUpper c \<or> isDigit c then False
      else if (mode = encodeHost \<or> mode = encodeZone) \<and> (c \<in> set ''!$&()*+,;=:[]<>'' \<or> c = CHR 0x27 \<or> c = CHR 0x22) then False
      else if c \<in> set ''-_.~'' then False
      else if c \<in> set ''$&+,/:;=?@'' \<and> mode = encodePath then c = CHR ''?''
      else if c \<in> set ''$&+,/:;=?@'' \<and> mode = encodePathSegment then c \<in> set ''/;,?''
      else if c \<in> set ''$&+,/:;=?@'' \<and> mode = encodeUserPassword then c \<in> set ''@/?:''
      else if c \<in> set ''$&+,/:;=?@'' \<and> mode = encodeQueryComponent then True
      else if c \<in> set ''$&+,/:;=?@'' \<and> mode = encodeFragment then False
      else if mode = encodeFragment \<and> c \<in> set ''!()*'' then False
      else True)"

text \<open>
  \<open>unescape\<close>: Go validates the whole string first and decodes it afterwards; the
  model does both in one pass and returns the leftmost error, as Go does.
\<close>

fun unescape :: "string \<Rightarrow> encoding \<Rightarrow> url_error + string" where
  "unescape [] mode = Inr []"
| "unescape (c # cs) mode =
     (if c = CHR ''%'' then
        (case cs of
           h1 # h2 # rest \<Rightarrow>
             if \<not> ishex h1 \<or> \<not> ishex h2 then Inl (EscapeError [c, h1, h2])
             else if mode = encodeHost \<and> unhex h1 < 8 \<and> [c, h1, h2] \<noteq> ''%25''
               then Inl (EscapeError [c, h1, h2])
             else if mode = encodeZone \<and> [c, h1, h2] \<noteq> ''%25''
                  \<and> char_of (unhex h1 * 16 + unhex h2) \<noteq> CHR '' ''
                  \<and> shouldEscape (char_of (unhex h1 * 16 + unhex h2)) encodeHost
               then Inl (EscapeError [c, h1, h2])
             else (case unescape rest mode of
                     Inl e \<Rightarrow> Inl e
                   | Inr t \<Rightarrow> Inr (char_of (unhex h1 * 16 + unhex h2) # t))
         | _ \<Rightarrow> Inl (EscapeError (c # cs)))
      else if c = CHR ''+'' then
        (case unescape cs mode of
           Inl e \<Rightarrow> Inl e
         | Inr t \<Rightarrow> Inr ((if mode = encodeQueryComponent then CHR '' '' else CHR ''+'') # t))
      else if (mode = encodeHost \<or> mode = encodeZone) \<and> byte c < 128 \<and> shouldEscape c encodeHost
        then Inl (InvalidHostError [c])
      else (case unescape cs mode of
              Inl e \<Rightarrow> Inl e
            | Inr t \<Rightarrow> Inr (c # t)))"

definition escape_byte :: "encoding \<Rightarrow> char \<Rightarrow> string" where
  "escape_byte mode c =
     (if shouldEscape c mode then
        (if c = CHR '' '' \<and> mode = encodeQueryComponent then ''+''
         else [CHR ''%'', upperhex (byte c div 16), upperhex (byte c mod 16)])
      else [c])"

definition escape :: "string \<Rightarrow> encoding \<Rightarrow> string" where
  "escape s mode = concat (map (escape_byte mode) s)"

definition validEncoded :: "string \<Rightarrow> encoding \<Rightarrow> bool" where
  "validEncoded s mode =
     list_all (\<lambda>c. c \<in> set ''!$&()*+,;=:@[]%'' \<or> c = CHR 0x27 \<or> \<not> shouldEscape c mode) s"

definition setPath :: "URL \<Rightarrow> string \<Rightarrow> url_error + URL" where
  "setPath u p =
     (case unescape p encodePath of
        Inl e \<Rightarrow> Inl e
      | Inr path \<Rightarrow>
          Inr (u\<lparr>Path := path, RawPath := (if p = escape path encodePath then [] else p)\<rparr>))"

definition setFragment :: "URL \<Rightarrow> string \<Rightarrow> url_error + URL" where
  "setFragment u f =
     (case unescape f encodeFragment of
        Inl e \<Rightarrow> Inl e
      | Inr frag \<Rightarrow>
          Inr (u\<lparr>Fragment := frag,
                 RawFragment := (if f = escape frag encodeFragment then [] else f)\<rparr>))"

definition EscapedPath :: "URL \<Rightarrow> string" where
  "EscapedPath u =
     (if RawPath u \<noteq> [] \<and> validEncoded (RawPath u) encodePath
         \<and> unescape (RawPath u) encodePath = Inr (Path u) then RawPath u
      else if Path u = ''*'' then ''*''
      else escape (Path u) encodePath)"

definition EscapedFragment :: "URL \<Rightarrow> string" where
  "EscapedFragment u =
     (if RawFragment u \<noteq> [] \<and> validEncoded (RawFragment u) encodeFragment
         \<and> unescape (RawFragment u) encodeFragment = Inr (Fragment u) then RawFragment u
      else escape (Fragment u) encodeFragment)"

text \<open>
  \<open>getScheme\<close>: \<open>getScheme_loop rawURL seen rest\<close> is the loop at index
  \<open>length seen\<close>, with \<open>seen\<close> the bytes already accepted.
\<close>

fun getScheme_loop :: "string \<Rightarrow> string \<Rightarrow> string \<Rightarrow> url_error + (string \<times> string)" where
  "getScheme_loop rawURL seen [] = Inr ([], rawURL)"
| "getScheme_loop rawURL seen (c # cs) =
     (if isLower c \<or> isUpper c then getScheme_loop rawURL (seen @ [c]) cs
      else if isDigit c \<or> c = CHR ''+'' \<or> c = CHR ''-'' \<or> c = CHR ''.'' then
        (if seen = [] then Inr ([], rawURL) else getScheme_loop rawURL (seen @ [c]) cs)
      else if c = CHR '':'' then
        (if seen = [] then Inl MissingProtocolScheme else Inr (seen, cs))
      else Inr ([], rawURL))"

definition getScheme :: "string \<Rightarrow> url_error + (string \<times> string)" where
  "getScheme rawURL = getScheme_loop rawURL [] rawURL"

definition stringContainsCTLByte :: "string \<Rightarrow> bool" where
  "stringContainsCTLByte s = list_ex (\<lambda>b. byte b < 32 \<or> byte b = 127) s"

definition validOptionalPort :: "string \<Rightarrow> bool" where
  "validOptionalPort port =
     (case port of
        [] \<Rightarrow> True
      | c # ds \<Rightarrow> c = CHR '':'' \<and> list_all isDigit ds)"

definition validUserinfo :: "string \<Rightarrow> bool" where
  "validUserinfo s =
     list_all (\<lambda>r. isUpper r \<or> isLower r \<or> isDigit r
                 \<or> r \<in> set ''-._:~!$&()*+,;=%@'' \<or> r = CHR 0x27) s"

definition parseHost :: "string \<Rightarrow> url_error + string" where
  "parseHost host =
     (if HasPrefix host ''['' then
        (case LastIndex host '']'' of
           None \<Rightarrow> Inl MissingBracket
         | Some i \<Rightarrow>
             if \<not> validOptionalPort (drop (i + 1) host) then Inl (InvalidPort (drop (i + 1) host))
             else
               (case Index (take i host) ''%25'' of
                  Some zone \<Rightarrow>
                    (case unescape (take zone host) encodeHost of
                       Inl e \<Rightarrow> Inl e
                     | Inr host1 \<Rightarrow>
                         (case unescape (drop zone (take i host)) encodeZone of
                            Inl e \<Rightarrow> Inl e
                          | Inr host2 \<Rightarrow>
                              (case unescape (drop i host) encodeHost of
                                 Inl e \<Rightarrow> Inl e
                               | Inr host3 \<Rightarrow> Inr (host1 @ host2 @ host3))))
                | None \<Rightarrow> unescape host encodeHost))
      else
        (case LastIndex host '':'' of
           Some i \<Rightarrow>
             if \<not> validOptionalPort (drop i host) then Inl (InvalidPort (drop i host))
             else unescape host encodeHost
         | None \<Rightarrow> unescape host encodeHost))"

definition parseUserinfo :: "string \<Rightarrow> url_error + Userinfo" where
  "parseUserinfo userinfo =
     (if \<not> validUserinfo userinfo then Inl InvalidUserinfo
      else if \<not> Contains userinfo '':'' then
        (case unescape userinfo encodeUserPassword of
           Inl e \<Rightarrow> Inl e
         | Inr n \<Rightarrow> Inr \<lparr>username = n, password = [], passwordSet = False\<rparr>)
      else
        (case Cut userinfo '':'' of
           (un, pw, _) \<Rightarrow>
             (case unescape un encodeUserPassword of
                Inl e \<Rightarrow> Inl e
              | Inr n \<Rightarrow>
                  (case unescape pw encodeUserPassword of
                     Inl e \<Rightarrow> Inl e
                   | Inr p \<Rightarrow> Inr \<lparr>username = n, password = p, passwordSet = True\<rparr>))))"

definition parseAuthority :: "string \<Rightarrow> url_error + (Userinfo option \<times> string)" where
  "parseAuthority authority =
     (case LastIndex authority ''@'' of
        None \<Rightarrow>
          (case parseHost authority of
             Inl e \<Rightarrow> Inl e
           | Inr host \<Rightarrow> Inr (None, host))
      | Some i \<Rightarrow>
          (case parseHost (drop (i + 1) authority) of
             Inl e \<Rightarrow> Inl e
           | Inr host \<Rightarrow>
               (case parseUserinfo (take i authority) of
                  Inl e \<Rightarrow> Inl e
                | Inr ui \<Rightarrow> Inr (Some ui, host))))"

text \<open>
  \<open>parse(rawURL, viaRequest = false)\<close>. \<open>splitQuery\<close> is its step that detaches the
  query (setting \<open>ForceQuery\<close> for a lone trailing question mark), \<open>splitAuthority\<close>
  its step that detaches and parses the authority after a leading double slash.
\<close>

definition splitQuery :: "URL \<Rightarrow> string \<Rightarrow> URL \<times> string" where
  "splitQuery u rest =
     (if HasSuffix rest ''?'' \<and> Count rest ''?'' = 1 then (u\<lparr>ForceQuery := True\<rparr>, butlast rest)
      else (case Cut rest ''?'' of (before, after, _) \<Rightarrow> (u\<lparr>RawQuery := after\<rparr>, before)))"

definition splitAuthority :: "URL \<Rightarrow> string \<Rightarrow> url_error + (URL \<times> string)" where
  "splitAuthority u rest =
     (if (Scheme u \<noteq> [] \<or> \<not> HasPrefix rest ''///'') \<and> HasPrefix rest ''//'' then
        (case (case Index (drop 2 rest) ''/'' of
                 Some i \<Rightarrow> (take i (drop 2 rest), drop i (drop 2 rest))
               | None \<Rightarrow> (drop 2 rest, [])) of
           (authority, rest') \<Rightarrow>
             (case parseAuthority authority of
                Inl e \<Rightarrow> Inl e
              | Inr (user, host) \<Rightarrow> Inr (u\<lparr>User := user, Host := host\<rparr>, rest')))
      else if Scheme u \<noteq> [] \<and> HasPrefix rest ''/'' then Inr (u\<lparr>OmitHost := True\<rparr>, rest)
      else Inr (u, rest))"

definition parse :: "string \<Rightarrow> url_error + URL" where
  "parse rawURL =
     (if stringContainsCTLByte rawURL then Inl InvalidControlCharacter
      else if rawURL = ''*'' then Inr (emptyURL\<lparr>Path := ''*''\<rparr>)
      else
        (case getScheme rawURL of
           Inl e \<Rightarrow> Inl e
         | Inr (scheme, rest0) \<Rightarrow>
             (case splitQuery (emptyURL\<lparr>Scheme := ToLower scheme\<rparr>) rest0 of
                (u, rest) \<Rightarrow>
                  if \<not> HasPrefix rest ''/'' \<and> Scheme u \<noteq> [] then Inr (u\<lparr>Opaque := rest\<rparr>)
                  else if \<not> HasPrefix rest ''/'' \<and> Contains (fst (Cut rest ''/'')) '':''
                    then Inl FirstPathSegmentColon
                  else
                    (case splitAuthority u rest of
                       Inl e \<Rightarrow> Inl e
                     | Inr (u', rest') \<Rightarrow> setPath u' rest'))))"

definition url_Parse :: "string \<Rightarrow> url_error + URL" where
  "url_Parse rawURL =
     (case Cut rawURL ''#'' of
        (u, frag, _) \<Rightarrow>
          (case parse u of
             Inl e \<Rightarrow> Inl e
           | Inr url \<Rightarrow> if frag = [] then Inr url else setFragment url frag))"

definition IsAbs :: "URL \<Rightarrow> bool" where
  "IsAbs u = (Scheme u \<noteq> [])"

text \<open>
  \<open>resolvePath\<close>: the loop cuts \<open>full\<close> at every slash, which is the list
  \<open>Split full "/"\<close>; \<open>resolvePath_step\<close> is the loop body on the pair of the
  builder \<open>dst\<close> and the flag \<open>first\<close>, and \<open>elem\<close> after the loop is the last
  element.
\<close>

definition resolvePath_step :: "string \<times> bool \<Rightarrow> string \<Rightarrow> string \<times> bool" where
  "resolvePath_step st elem =
     (case st of
        (dst, first) \<Rightarrow>
          if elem = ''.'' then (dst, False)
          else if elem = ''..'' then
            (case LastIndex (drop 1 dst) ''/'' of
               None \<Rightarrow> (''/'', True)
             | Some index \<Rightarrow> (''/'' @ take index (drop 1 dst), first))
          else ((if first then dst else dst @ ''/'') @ elem, False))"

definition resolvePath :: "string \<Rightarrow> string \<Rightarrow> string" where
  "resolvePath base ref =
     (let full =
        (if ref = [] then base
         else if hd ref \<noteq> CHR ''/'' then
           (case LastIndex base ''/'' of
              None \<Rightarrow> ref
            | Some i \<Rightarrow> take (i + 1) base @ ref)
         else ref)
      in if full = [] then []
         else
           (let elems = Split full ''/'';
                dst = fst (foldl resolvePath_step (''/'', True) elems);
                r = (if last elems = ''.'' \<or> last elems = ''..'' then dst @ ''/'' else dst)
            in if length r > 1 \<and> r ! 1 = CHR ''/'' then drop 1 r else r))"

text \<open>\<open>ResolveReference\<close> calls \<open>setPath\<close> and ignores its error.\<close>

definition setPath_ignoring_error :: "URL \<Rightarrow> string \<Rightarrow> URL" where
  "setPath_ignoring_error u p = (case setPath u p of Inl e \<Rightarrow> u | Inr u' \<Rightarrow> u')"

definition ResolveReference :: "URL \<Rightarrow> URL \<Rightarrow> URL" where
  "ResolveReference u ref =
     (let url = ref\<lparr>Scheme := (if Scheme ref = [] then Scheme u else Scheme ref)\<rparr>
      in if Scheme ref \<noteq> [] \<or> Host ref \<noteq> [] \<or> User ref \<noteq> None then
           setPath_ignoring_error url (resolvePath (EscapedPath ref) [])
         else if Opaque ref \<noteq> [] then url\<lparr>User := None, Host := [], Path := []\<rparr>
         else
           (let url1 =
              (if Path ref = [] \<and> \<not> ForceQuery ref \<and> RawQuery ref = [] then
                 (if Fragment ref = [] then
                    url\<lparr>RawQuery := RawQuery u, Fragment := Fragment u,
                        RawFragment := RawFragment u\<rparr>
                  else url\<lparr>RawQuery := RawQuery u\<rparr>)
               else url)
            in if Path ref = [] \<and> Opaque u \<noteq> [] then
                 url1\<lparr>Opaque := Opaque u, User := None, Host := [], Path := []\<rparr>
               else
                 setPath_ignoring_error (url1\<lparr>Host := Host u, User := User u\<rparr>)
                   (resolvePath (EscapedPath u) (EscapedPath ref))))"

definition Userinfo_String :: "Userinfo \<Rightarrow> string" where
  "Userinfo_String ui =
     escape (username ui) encodeUserPassword
     @ (if passwordSet ui then '':'' @ escape (password ui) encodeUserPassword else [])"

text \<open>
  \<open>(*URL).String\<close>: \<open>String_authority\<close> is what the builder holds after the scheme
  and the authority are written, \<open>String_path\<close> the path with the slash or the
  \<open>./\<close> that String puts before it.
\<close>

definition String_authority :: "URL \<Rightarrow> string" where
  "String_authority u =
     (if Scheme u \<noteq> [] then Scheme u @ '':'' else [])
     @ (if Scheme u \<noteq> [] \<or> Host u \<noteq> [] \<or> User u \<noteq> None then
          (if OmitHost u \<and> Host u = [] \<and> User u = None then []
           else (if Host u \<noteq> [] \<or> Path u \<noteq> [] \<or> User u \<noteq> None then ''//'' else [])
                @ (case User u of None \<Rightarrow> [] | Some ui \<Rightarrow> Userinfo_String ui @ ''@'')
                @ (if Host u \<noteq> [] then escape (Host u) encodeHost else []))
        else [])"

definition String_path :: "URL \<Rightarrow> string" where
  "String_path u =
     (let path = EscapedPath u;
          buf = String_authority u
                @ (if path \<noteq> [] \<and> hd path \<noteq> CHR ''/'' \<and> Host u \<noteq> [] then ''/'' else [])
      in (if path \<noteq> [] \<and> hd path \<noteq> CHR ''/'' \<and> Host u \<noteq> [] then ''/'' else [])
         @ (if buf = [] \<and> Contains (fst (Cut path ''/'')) '':'' then ''./'' else [])
         @ path)"

definition url_String :: "URL \<Rightarrow> string" where
  "url_String u =
     (if Opaque u \<noteq> [] then (if Scheme u \<noteq> [] then Scheme u @ '':'' else []) @ Opaque u
      else String_authority u @ String_path u)
     @ (if ForceQuery u \<or> RawQuery u \<noteq> [] then ''?'' @ RawQuery u else [])
     @ (if Fragment u \<noteq> [] then ''#'' @ EscapedFragment u else [])"

section \<open>The crawler: pure helpers\<close>

text \<open>
  \<open>formatURL\<close> (url-scan.go, and the same text in src/unnamed/part\_000): a reference
  that does not parse, or that is absolute, is returned as it is; so is any
  reference when the base does not parse.
\<close>

definition formatURL :: "string \<Rightarrow> string \<Rightarrow> string" where
  "formatURL base href =
     (case url_Parse href of
        Inl err \<Rightarrow> href
      | Inr u \<Rightarrow>
          if IsAbs u then href
          else
            (case url_Parse base of
               Inl err \<Rightarrow> href
             | Inr baseURL \<Rightarrow> url_String (ResolveReference baseURL u)))"

text \<open>\<open>isValidURL\<close>: the regular expression \<open>^https?://\<close>, matched at the start.\<close>

definition isValidURL :: "string \<Rightarrow> bool" where
  "isValidURL u = (HasPrefix u ''http://'' \<or> HasPrefix u ''https://'')"

definition codeExtensions :: "string list" where
  "codeExtensions =
     [''.js'', ''.jsp'', ''.xml'', ''.html'', ''.htm'', ''.php'', ''.asp'', ''.aspx'', ''.css'',
      ''.json'', ''.txt'', ''.md'', ''.yaml'', ''.csv'', ''.doc'', ''.docx'', ''.pdf'', ''.ppt'',
      ''.pptx'', ''.xls'', ''.xlsx'', ''.ts'', ''.py'', ''.rb'', ''.java'', ''.c'', ''.h'', ''.cs'',
      ''.swift'', ''.kt'', ''.pl'', ''.sh'', ''.bat'', ''.go'']"

definition isCodeFile :: "string \<Rightarrow> bool" where
  "isCodeFile u = list_ex (\<lambda>ext. HasSuffix u ext) codeExtensions"

record Crawler =
  Queue :: "string list"
  Visited :: "string \<rightharpoonup> bool"
  WG :: int
  InScope :: "string list"
  OutScope :: "string list"

text \<open>
  \<open>isInScope\<close>: the first loop returns true at the first in-scope suffix of the host,
  the second loop returns false at the first out-of-scope suffix, and the last line
  answers whether the in-scope list is empty.
\<close>

definition isInScope :: "'a Crawler_scheme \<Rightarrow> string \<Rightarrow> bool" where
  "isInScope c u =
     (case url_Parse u of
        Inl err \<Rightarrow> False
      | Inr parsedURL \<Rightarrow>
          if list_ex (\<lambda>scope. HasSuffix (Host parsedURL) scope) (InScope c) then True
          else if list_ex (\<lambda>scope. HasSuffix (Host parsedURL) scope) (OutScope c) then False
          else length (InScope c) = 0)"

section \<open>Documents, the regular expression and HTTP\<close>

text \<open>
  \<open>html.Node\<close> (golang.org/x/net/html): the node type, the tag or text \<open>Data\<close>,
  the attributes and the children from \<open>FirstChild\<close> along \<open>NextSibling\<close>.
\<close>

datatype NodeType =
  ErrorNode | TextNode | DocumentNode | ElementNode | CommentNode | DoctypeNode | RawNode

record Attribute =
  Namespace :: string
  Key :: string
  Val :: string

datatype Node = Node NodeType string "Attribute list" "Node list"

text \<open>
  The regular expression \<open>https?://[^\s"']+\<close> of \<open>extractURLsFromScript\<close>. In Go's
  syntax \<open>\s\<close> is tab, newline, form feed, carriage return and space. \<open>matchURL\<close> is
  a match that starts at the first byte: the matched text and the text after it.
  \<open>FindAllString\<close> returns the leftmost matches, none overlapping another.
\<close>

definition isURLChar :: "char \<Rightarrow> bool" where
  "isURLChar c =
     (c \<noteq> CHR 0x09 \<and> c \<noteq> CHR 0x0A \<and> c \<noteq> CHR 0x0C \<and> c \<noteq> CHR 0x0D \<and> c \<noteq> CHR '' ''
      \<and> c \<noteq> CHR 0x22 \<and> c \<noteq> CHR 0x27)"

definition matchURL :: "string \<Rightarrow> (string \<times> string) option" where
  "matchURL s =
     (if prefix ''https://'' s \<and> takeWhile isURLChar (drop 8 s) \<noteq> [] then
        Some (''https://'' @ takeWhile isURLChar (drop 8 s), dropWhile isURLChar (drop 8 s))
      else if prefix ''http://'' s \<and> takeWhile isURLChar (drop 7 s) \<noteq> [] then
        Some (''http://'' @ takeWhile isURLChar (drop 7 s), dropWhile isURLChar (drop 7 s))
      else None)"

lemma matchURL_shorter: "matchURL s = Some (m, rest) \<Longrightarrow> length rest < length s"
proof -
  assume a: "matchURL s = Some (m, rest)"
  have d: "length (dropWhile isURLChar (drop k s)) \<le> length s - k" for k
    using length_dropWhile_le [of isURLChar "drop k s"] by simp
  from a consider "prefix ''https://'' s" "rest = dropWhile isURLChar (drop 8 s)"
    | "prefix ''http://'' s" "rest = dropWhile isURLChar (drop 7 s)"
    by (auto simp: matchURL_def split: if_splits)
  then show ?thesis
  proof cases
    case 1
    then have "8 \<le> length s" using prefix_length_le by fastforce
    with 1 d [of 8] show ?thesis by simp
  next
    case 2
    then have "7 \<le> length s" using prefix_length_le by fastforce
    with 2 d [of 7] show ?thesis by simp
  qed
qed

function FindAllString :: "string \<Rightarrow> string list" where
  "FindAllString [] = []"
| "FindAllString (c # cs) =
     (case matchURL (c # cs) of
        Some (m, rest) \<Rightarrow> m # FindAllString rest
      | None \<Rightarrow> FindAllString cs)"
  by pat_completeness auto
termination
  by (relation "measure length") (auto dest: matchURL_shorter)

text \<open>
  Package net/http. A response carries its status code and its body, whose reading
  (\<open>io.ReadAll\<close>, or the reads of \<open>html.Parse\<close>) either fails or gives all the bytes.
  The network is a parameter: \<open>tr n req\<close> is what \<open>client.Do\<close> returns for \<open>req\<close>
  when \<open>n\<close> requests were made before it, so the same request may be answered
  differently each time.
\<close>

datatype error = UrlError url_error | TransportError string | BodyReadError string

record Response =
  StatusCode :: int
  Body :: "error + string"

record Request =
  Method :: string
  req_URL :: URL
  Header :: "(string \<times> string) list"

type_synonym transport = "nat \<Rightarrow> Request \<Rightarrow> error + Response"

definition removeEmptyPort :: "string \<Rightarrow> string" where
  "removeEmptyPort host =
     (if (case LastIndex host '':'' of
            None \<Rightarrow> False
          | Some i \<Rightarrow> (case LastIndex host '']'' of None \<Rightarrow> True | Some j \<Rightarrow> j < i))
         \<and> HasSuffix host '':''
      then butlast host else host)"

text \<open>
  \<open>http.NewRequest\<close> with the method GET, which is valid: it fails exactly when
  \<open>url.Parse\<close> fails.
\<close>

definition http_NewRequest :: "string \<Rightarrow> string \<Rightarrow> error + Request" where
  "http_NewRequest method rawurl =
     (case url_Parse rawurl of
        Inl e \<Rightarrow> Inl (UrlError e)
      | Inr u \<Rightarrow>
          Inr \<lparr>Method = method, req_URL = u\<lparr>Host := removeEmptyPort (Host u)\<rparr>, Header = []\<rparr>)"

definition userAgent :: string where
  "userAgent = ''Mozilla/5.0 (Windows NT 10.0; Win64; x64) AppleWebKit/537.36 (KHTML, like Gecko) Chrome/58.0.3029.110 Safari/537.3''"

text \<open>
  \<open>html.Parse\<close> returns an error only when reading the body fails; the parsing
  algorithm itself is a parameter \<open>hp\<close> from the bytes to the document.
\<close>

definition html_Parse :: "(string \<Rightarrow> Node) \<Rightarrow> error + string \<Rightarrow> error + Node" where
  "html_Parse hp body = (case body of Inl e \<Rightarrow> Inl e | Inr bytes \<Rightarrow> Inr (hp bytes))"

section \<open>The crawler: state and operations (url-scan.go)\<close>

text \<open>
  What a call does besides returning: \<open>Panics\<close> is a runtime panic, \<open>Blocks\<close> a send
  on the full \<open>Queue\<close> (capacity 100) that nothing will ever receive, since the only
  receiver is the one worker that is sending, \<open>Exits\<close> is \<open>log.Fatalf\<close>.
\<close>

datatype 'a outcome = Returns 'a | Panics | Blocks | Exits

text \<open>
  The running program: the \<open>Crawler\<close> fields, the records sent so far on the two
  channels of the sink (and on \<open>OutputCh\<close>, which only src/unnamed/part\_000 uses),
  the lines printed on standard output, and the requests given to \<open>client.Do\<close>.
  Lines written with package \<open>log\<close> are not modelled.
\<close>

record Proc = Crawler +
  OutputCh :: "string list"
  inScopeCh :: "string list"
  outScopeCh :: "string list"
  Stdout :: "string list"
  Requests :: "Request list"

definition NewCrawler :: "string list \<Rightarrow> string list \<Rightarrow> Proc" where
  "NewCrawler inscope outscope =
     \<lparr>Queue = [], Visited = Map.empty, WG = 0, InScope = inscope, OutScope = outscope,
      OutputCh = [], inScopeCh = [], outScopeCh = [], Stdout = [], Requests = []\<rparr>"

definition client_Do :: "transport \<Rightarrow> Proc \<Rightarrow> Request \<Rightarrow> (error + Response) \<times> Proc" where
  "client_Do tr c req = (tr (length (Requests c)) req, c\<lparr>Requests := Requests c @ [req]\<rparr>)"

definition ok200 :: "error + Response \<Rightarrow> bool" where
  "ok200 r = (case r of Inl err \<Rightarrow> False | Inr resp \<Rightarrow> StatusCode resp = 200)"

definition flipScheme :: "URL \<Rightarrow> URL" where
  "flipScheme u = u\<lparr>Scheme := (if Scheme u = ''http'' then ''https'' else ''http'')\<rparr>"

text \<open>
  \<open>fetchURL\<close>: the result is the pair \<open>(resp, err)\<close> as a sum, \<open>Inl\<close> when \<open>err\<close> is
  not nil. The second \<open>url.Parse\<close> drops its error and dereferences the result, a
  panic if it were nil.
\<close>

definition fetchURL :: "transport \<Rightarrow> Proc \<Rightarrow> string \<Rightarrow> ((error + Response) \<times> Proc) outcome" where
  "fetchURL tr c pageURL =
     (case http_NewRequest ''GET'' pageURL of
        Inl err \<Rightarrow> Returns (Inl err, c)
      | Inr req0 \<Rightarrow>
          (let req = req0\<lparr>Header := [(''User-Agent'', userAgent)]\<rparr>;
               first = client_Do tr c req
           in if ok200 (fst first) then Returns first
              else
                (case url_Parse pageURL of
                   Inl e \<Rightarrow> Panics
                 | Inr u \<Rightarrow> Returns (client_Do tr (snd first) (req\<lparr>req_URL := flipScheme u\<rparr>)))))"

text \<open>
  \<open>extractLinks\<close> of url-scan.go. \<open>attrLinks\<close> is the loop over the attributes that
  keeps the values whose key satisfies \<open>want\<close>. For a \<open>meta\<close> element the value is
  \<open>strings.Split(a.Val, "=")[1]\<close>; an index out of range would be a panic, the result
  \<open>None\<close>.
\<close>

definition linkTags :: "string list" where
  "linkTags =
     [''a'', ''link'', ''img'', ''iframe'', ''frame'', ''embed'', ''script'', ''source'', ''track'',
      ''video'', ''audio'', ''applet'', ''object'', ''area'', ''base'', ''input'', ''form'']"

definition attrLinks :: "(string \<Rightarrow> bool) \<Rightarrow> string \<Rightarrow> Attribute list \<Rightarrow> string list" where
  "attrLinks want base attrs = map (\<lambda>a. formatURL base (Val a)) (filter (\<lambda>a. want (Key a)) attrs)"

fun metaLinks :: "string \<Rightarrow> Attribute list \<Rightarrow> string list option" where
  "metaLinks base [] = Some []"
| "metaLinks base (a # as) =
     (if Key a = ''content'' \<and> (Contains (Val a) ''url='' \<or> Contains (Val a) ''URL='') then
        (case Split (Val a) ''='' of
           x0 # x1 # xs \<Rightarrow> map_option (\<lambda>urls. formatURL base x1 # urls) (metaLinks base as)
         | _ \<Rightarrow> None)
      else metaLinks base as)"

definition elementLinks :: "string \<Rightarrow> string \<Rightarrow> Attribute list \<Rightarrow> string list option" where
  "elementLinks base data attrs =
     (if data \<in> set linkTags then
        Some (attrLinks (\<lambda>k. k = ''href'' \<or> k = ''src'' \<or> k = ''data'' \<or> k = ''action'') base attrs)
      else if data = ''meta'' then metaLinks base attrs
      else if data = ''button'' then Some (attrLinks (\<lambda>k. k = ''formaction'') base attrs)
      else if data \<in> set [''blockquote'', ''del'', ''ins'', ''q''] then
        Some (attrLinks (\<lambda>k. k = ''cite'') base attrs)
      else if data = ''command'' then Some (attrLinks (\<lambda>k. k = ''icon'') base attrs)
      else if data = ''data'' then Some (attrLinks (\<lambda>k. k = ''value'') base attrs)
      else Some [])"

fun extractLinks :: "string \<Rightarrow> Node \<Rightarrow> string list option" where
  "extractLinks base (Node ty data attrs children) =
     (case (if ty = ElementNode then elementLinks base data attrs else Some []) of
        None \<Rightarrow> None
      | Some urls \<Rightarrow>
          (case those (map (extractLinks base) children) of
             None \<Rightarrow> None
           | Some below \<Rightarrow> Some (urls @ concat below)))"

definition visited :: "'a Crawler_scheme \<Rightarrow> string \<Rightarrow> bool" where
  "visited c u = (case Visited c u of None \<Rightarrow> False | Some b \<Rightarrow> b)"

text \<open>
  \<open>emitScriptURL\<close> is the body of the loop of \<open>extractURLsFromScript\<close> (url-scan.go):
  the URL found in the asset is classified and sent on one of the two channels.
\<close>

definition emitScriptURL :: "Proc \<Rightarrow> string \<Rightarrow> Proc" where
  "emitScriptURL c u =
     (if isInScope c u then c\<lparr>inScopeCh := inScopeCh c @ [''In-scope: '' @ u]\<rparr>
      else c\<lparr>outScopeCh := outScopeCh c @ [''Out-Of-Scope: '' @ u]\<rparr>)"

definition extractURLsFromScript :: "transport \<Rightarrow> Proc \<Rightarrow> string \<Rightarrow> Proc outcome" where
  "extractURLsFromScript tr c scriptURL =
     (case fetchURL tr c scriptURL of
        Returns (r, c1) \<Rightarrow>
          (case r of
             Inl err \<Rightarrow> Returns c1
           | Inr resp \<Rightarrow>
               if StatusCode resp \<noteq> 200 then Returns c1
               else
                 (case Body resp of
                    Inl err \<Rightarrow> Returns c1
                  | Inr body \<Rightarrow> Returns (foldl emitScriptURL c1 (FindAllString body))))
      | Panics \<Rightarrow> Panics
      | Blocks \<Rightarrow> Blocks
      | Exits \<Rightarrow> Exits)"

text \<open>
  The loop of \<open>processURL\<close> over the extracted URLs. \<open>routeURL\<close> is its first
  statement: a valid URL is classified and sent to the sink, and an in-scope one is
  sent on \<open>Queue\<close> (the send blocks when the queue holds 100 URLs) and counted in the
  wait group. No test of \<open>Visited\<close> guards the send.
\<close>

definition routeURL :: "Proc \<Rightarrow> string \<Rightarrow> Proc outcome" where
  "routeURL c u =
     (if isValidURL u then
        (if isInScope c u then
           (if length (Queue c) \<ge> 100 then Blocks
            else Returns (c\<lparr>inScopeCh := inScopeCh c @ [''In-scope: '' @ u],
                            Queue := Queue c @ [u], WG := WG c + 1\<rparr>))
         else Returns (c\<lparr>outScopeCh := outScopeCh c @ [''Out-Of-Scope: '' @ u]\<rparr>))
      else Returns c)"

fun processURL_loop :: "transport \<Rightarrow> Proc \<Rightarrow> string list \<Rightarrow> Proc outcome" where
  "processURL_loop tr c [] = Returns c"
| "processURL_loop tr c (u # us) =
     (case routeURL c u of
        Returns c1 \<Rightarrow>
          (case (if isCodeFile u then extractURLsFromScript tr c1 u else Returns c1) of
             Returns c2 \<Rightarrow> processURL_loop tr c2 us
           | Panics \<Rightarrow> Panics
           | Blocks \<Rightarrow> Blocks
           | Exits \<Rightarrow> Exits)
      | Panics \<Rightarrow> Panics
      | Blocks \<Rightarrow> Blocks
      | Exits \<Rightarrow> Exits)"

text \<open>
  \<open>processURL\<close>: under the mutex the URL is looked up in \<open>Visited\<close> and, when absent,
  marked; then the page is announced on standard output, fetched, parsed, and its
  links are processed. In a run of one worker locking and unlocking change nothing.
\<close>

definition processURL :: "transport \<Rightarrow> (string \<Rightarrow> Node) \<Rightarrow> Proc \<Rightarrow> string \<Rightarrow> Proc outcome" where
  "processURL tr hp c pageURL =
     (if visited c pageURL then Returns c
      else
        (case fetchURL tr (c\<lparr>Visited := (Visited c)(pageURL \<mapsto> True),
                              Stdout := Stdout c @ [''Crawling: '' @ pageURL]\<rparr>) pageURL of
           Returns (r, c1) \<Rightarrow>
             (case r of
                Inl err \<Rightarrow> Returns c1
              | Inr resp \<Rightarrow>
                  if StatusCode resp \<noteq> 200 then Returns c1
                  else
                    (case html_Parse hp (Body resp) of
                       Inl err \<Rightarrow> Returns c1
                     | Inr doc \<Rightarrow>
                         (case extractLinks pageURL doc of
                            None \<Rightarrow> Panics
                          | Some urls \<Rightarrow> processURL_loop tr c1 urls)))
         | Panics \<Rightarrow> Panics
         | Blocks \<Rightarrow> Blocks
         | Exits \<Rightarrow> Exits))"

text \<open>
  One turn of the loop of \<open>worker\<close>: receive a URL from \<open>Queue\<close>, process it, call
  \<open>WG.Done\<close>. With an empty queue the worker waits and there is no turn. \<open>Crawl\<close>
  puts the start URL on the queue and counts it before the worker starts.
\<close>

definition worker_turn :: "transport \<Rightarrow> (string \<Rightarrow> Node) \<Rightarrow> Proc \<Rightarrow> Proc outcome option" where
  "worker_turn tr hp c =
     (case Queue c of
        [] \<Rightarrow> None
      | url # q \<Rightarrow>
          Some (case processURL tr hp (c\<lparr>Queue := q\<rparr>) url of
                  Returns c1 \<Rightarrow> Returns (c1\<lparr>WG := WG c1 - 1\<rparr>)
                | Panics \<Rightarrow> Panics
                | Blocks \<Rightarrow> Blocks
                | Exits \<Rightarrow> Exits))"

definition Crawl_start :: "Proc \<Rightarrow> string \<Rightarrow> Proc" where
  "Crawl_start c startURL = c\<lparr>Queue := Queue c @ [startURL], WG := WG c + 1\<rparr>"

inductive crawl_run :: "transport \<Rightarrow> (string \<Rightarrow> Node) \<Rightarrow> Proc \<Rightarrow> Proc \<Rightarrow> bool"
  for tr :: transport and hp :: "string \<Rightarrow> Node" where
  run_refl: "crawl_run tr hp c c"
| run_step: "crawl_run tr hp c c1 \<Longrightarrow> worker_turn tr hp c1 = Some (Returns c2) \<Longrightarrow> crawl_run tr hp c c2"

text \<open>
  \<open>main\<close>: without a start URL the program exits; otherwise the two scope flags are
  split at commas and the crawl starts.
\<close>

definition main :: "string \<Rightarrow> string \<Rightarrow> string \<Rightarrow> Proc outcome" where
  "main urlFlag inscopeFlag outscopeFlag =
     (if urlFlag = [] then Exits
      else Returns (Crawl_start (NewCrawler (Split inscopeFlag '','') (Split outscopeFlag '','')) urlFlag))"

section \<open>The output sink (url-scan.go)\<close>

text \<open>
  The files are a map from names to contents. \<open>os.Create\<close> succeeds for the names
  that satisfy \<open>cr\<close> and leaves the file empty. \<open>wr name content s\<close> is the number of
  bytes that a \<open>WriteString\<close> of \<open>s\<close> appends to the file \<open>name\<close> holding \<open>content\<close>:
  the write returns an error exactly when this is less than the length of \<open>s\<close>, and
  the callers log the error and go on.
\<close>

type_synonym files = "string \<rightharpoonup> string"

definition content :: "files \<Rightarrow> string \<Rightarrow> string" where
  "content fs name = (case fs name of None \<Rightarrow> [] | Some text \<Rightarrow> text)"

definition WriteString :: "(string \<Rightarrow> string \<Rightarrow> string \<Rightarrow> nat) \<Rightarrow> string \<Rightarrow> files \<Rightarrow> string \<Rightarrow> files" where
  "WriteString wr name fs s = fs(name \<mapsto> content fs name @ take (wr name (content fs name) s) s)"

text \<open>
  \<open>writeToFiles\<close>: both files are created and given their header lines, then each
  of the two goroutines appends every record received on its channel, followed by a
  newline, to its file. \<open>ins\<close> and \<open>outs\<close> are the records sent on the two channels
  until they are closed. \<open>Crawl\<close> names the two files differently, so the two loops
  never write the same file and are modelled one after the other. This is the
  function run until it returns. \<open>Crawl\<close> starts it with \<open>go\<close> and does not wait for
  it: \<open>main\<close> returns once the channels are closed, so the process may end before
  the last records are written, and what a run of the program leaves in the files is
  a prefix of what the function writes.
\<close>

definition writeToFiles ::
  "(string \<Rightarrow> bool) \<Rightarrow> (string \<Rightarrow> string \<Rightarrow> string \<Rightarrow> nat) \<Rightarrow> files \<Rightarrow> string \<Rightarrow> string
     \<Rightarrow> string list \<Rightarrow> string list \<Rightarrow> files outcome" where
  "writeToFiles cr wr fs inScopeFile outScopeFile ins outs =
     (if \<not> cr inScopeFile then Exits
      else if \<not> cr outScopeFile then Exits
      else
        (let fs1 = fs(inScopeFile \<mapsto> [], outScopeFile \<mapsto> []);
             fs2 = WriteString wr inScopeFile fs1 (''--IN SCOPE URLS:---'' @ [CHR 0x0A]);
             fs3 = WriteString wr outScopeFile fs2 (''--OUT OF SCOPE URLS:---'' @ [CHR 0x0A]);
             fs4 = foldl (\<lambda>f u. WriteString wr inScopeFile f (u @ [CHR 0x0A])) fs3 ins
         in Returns (foldl (\<lambda>f u. WriteString wr outScopeFile f (u @ [CHR 0x0A])) fs4 outs)))"

section \<open>The other implementation (src/unnamed/part\_000)\<close>

text \<open>
  The second source file holds the same program with one output channel and one
  output file. Its \<open>isInScope\<close>, \<open>isValidURL\<close>, \<open>isCodeFile\<close>, \<open>formatURL\<close> and
  \<open>fetchURL\<close> are those above, word for word. Its \<open>extractURLsFromScript\<close> returns the
  URLs found; its \<open>extractLinks\<close> fetches, at every node, every code file among the
  URLs collected at and below the node and appends what was found (the \<open>range\<close> loop
  runs over the list as it was when the loop began).
\<close>

definition extractURLsFromScript_part000 ::
  "transport \<Rightarrow> Proc \<Rightarrow> string \<Rightarrow> (string list \<times> Proc) outcome" where
  "extractURLsFromScript_part000 tr c scriptURL =
     (case fetchURL tr c scriptURL of
        Returns (r, c1) \<Rightarrow>
          (case r of
             Inl err \<Rightarrow> Returns ([], c1)
           | Inr resp \<Rightarrow>
               if StatusCode resp \<noteq> 200 then Returns ([], c1)
               else
                 (case Body resp of
                    Inl err \<Rightarrow> Returns ([], c1)
                  | Inr body \<Rightarrow> Returns (FindAllString body, c1)))
      | Panics \<Rightarrow> Panics
      | Blocks \<Rightarrow> Blocks
      | Exits \<Rightarrow> Exits)"

fun scriptPass_part000 ::
  "transport \<Rightarrow> string list \<Rightarrow> Proc \<Rightarrow> string list \<Rightarrow> (string list \<times> Proc) outcome" where
  "scriptPass_part000 tr urls c [] = Returns (urls, c)"
| "scriptPass_part000 tr urls c (u # us) =
     (if isCodeFile u then
        (case extractURLsFromScript_part000 tr c u of
           Returns (scriptURLs, c1) \<Rightarrow> scriptPass_part000 tr (urls @ scriptURLs) c1 us
         | Panics \<Rightarrow> Panics
         | Blocks \<Rightarrow> Blocks
         | Exits \<Rightarrow> Exits)
      else scriptPass_part000 tr urls c us)"

fun extractLinks_part000 ::
    "transport \<Rightarrow> string \<Rightarrow> Node \<Rightarrow> Proc \<Rightarrow> (string list \<times> Proc) outcome"
  and extractChildren_part000 ::
    "transport \<Rightarrow> string \<Rightarrow> Node list \<Rightarrow> Proc \<Rightarrow> (string list \<times> Proc) outcome" where
  "extractLinks_part000 tr base (Node ty data attrs children) c =
     (case (if ty = ElementNode then elementLinks base data attrs else Some []) of
        None \<Rightarrow> Panics
      | Some urls \<Rightarrow>
          (case extractChildren_part000 tr base children c of
             Returns (below, c1) \<Rightarrow> scriptPass_part000 tr (urls @ below) c1 (urls @ below)
           | Panics \<Rightarrow> Panics
           | Blocks \<Rightarrow> Blocks
           | Exits \<Rightarrow> Exits))"
| "extractChildren_part000 tr base [] c = Returns ([], c)"
| "extractChildren_part000 tr base (child # rest) c =
     (case extractLinks_part000 tr base child c of
        Returns (urls, c1) \<Rightarrow>
          (case extractChildren_part000 tr base rest c1 of
             Returns (others, c2) \<Rightarrow> Returns (urls @ others, c2)
           | Panics \<Rightarrow> Panics
           | Blocks \<Rightarrow> Blocks
           | Exits \<Rightarrow> Exits)
      | Panics \<Rightarrow> Panics
      | Blocks \<Rightarrow> Blocks
      | Exits \<Rightarrow> Exits)"

definition routeURL_part000 :: "Proc \<Rightarrow> string \<Rightarrow> Proc outcome" where
  "routeURL_part000 c u =
     (if isValidURL u then
        (if isInScope c u then
           (if length (Queue c) \<ge> 100 then Blocks
            else Returns (c\<lparr>OutputCh := OutputCh c @ [''In-scope: '' @ u],
                            Queue := Queue c @ [u], WG := WG c + 1\<rparr>))
         else Returns (c\<lparr>OutputCh := OutputCh c @ [''Out-Of-Scope: '' @ u]\<rparr>))
      else Returns c)"

fun processURL_loop_part000 :: "Proc \<Rightarrow> string list \<Rightarrow> Proc outcome" where
  "processURL_loop_part000 c [] = Returns c"
| "processURL_loop_part000 c (u # us) =
     (case routeURL_part000 c u of
        Returns c1 \<Rightarrow> processURL_loop_part000 c1 us
      | Panics \<Rightarrow> Panics
      | Blocks \<Rightarrow> Blocks
      | Exits \<Rightarrow> Exits)"

definition processURL_part000 ::
  "transport \<Rightarrow> (string \<Rightarrow> Node) \<Rightarrow> Proc \<Rightarrow> string \<Rightarrow> Proc outcome" where
  "processURL_part000 tr hp c pageURL =
     (if visited c pageURL then Returns c
      else
        (case fetchURL tr (c\<lparr>Visited := (Visited c)(pageURL \<mapsto> True),
                              Stdout := Stdout c @ [''Crawling: '' @ pageURL]\<rparr>) pageURL of
           Returns (r, c1) \<Rightarrow>
             (case r of
                Inl err \<Rightarrow> Returns c1
              | Inr resp \<Rightarrow>
                  if StatusCode resp \<noteq> 200 then Returns c1
                  else
                    (case html_Parse hp (Body resp) of
                       Inl err \<Rightarrow> Returns c1
                     | Inr doc \<Rightarrow>
                         (case extractLinks_part000 tr pageURL doc c1 of
                            Returns (urls, c2) \<Rightarrow> processURL_loop_part000 c2 urls
                          | Panics \<Rightarrow> Panics
                          | Blocks \<Rightarrow> Blocks
                          | Exits \<Rightarrow> Exits)))
         | Panics \<Rightarrow> Panics
         | Blocks \<Rightarrow> Blocks
         | Exits \<Rightarrow> Exits))"

text \<open>
  \<open>writeToFile\<close> of part\_000: one file; the first loop receives every record until
  the channel is closed and writes those that begin with \<open>In-scope\<close>; the second
  loop then finds the channel closed and empty and writes nothing.
\<close>

definition writeToFile_part000 ::
  "(string \<Rightarrow> bool) \<Rightarrow> (string \<Rightarrow> string \<Rightarrow> string \<Rightarrow> nat) \<Rightarrow> files \<Rightarrow> string
     \<Rightarrow> string list \<Rightarrow> files outcome" where
  "writeToFile_part000 cr wr fs outputFile sent =
     (if \<not> cr outputFile then Exits
      else
        (let fs1 = fs(outputFile \<mapsto> []);
             fs2 = WriteString wr outputFile fs1 (''--IN SCOPE URLS:---'' @ [CHR 0x0A]);
             fs3 = foldl (\<lambda>f u. if HasPrefix u ''In-scope'' then WriteString wr outputFile f (u @ [CHR 0x0A]) else f)
                     fs2 sent;
             fs4 = WriteString wr outputFile fs3 (''--OUT OF SCOPE URLS:---'' @ [CHR 0x0A])
         in Returns (foldl (\<lambda>f u. if HasPrefix u ''Out-Of-Scope'' then WriteString wr outputFile f (u @ [CHR 0x0A]) else f)
                       fs4 [])))"

section \<open>The prologue of processURL under several workers\<close>

text \<open>
  The source starts one worker, but \<open>processURL\<close> guards \<open>Visited\<close> with the mutex so
  that any number of invocations may run at once. Invocation \<open>i\<close> has the page URL
  \<open>arg i\<close> and a program counter; a step of the system is one statement of one
  invocation:
  \<^item> \<open>AtLock\<close>: \<open>c.Mutex.Lock()\<close>, possible only while the mutex is free;
  \<^item> \<open>AtTest\<close>: \<open>if c.Visited[pageURL]\<close>;
  \<^item> \<open>AtUnlockReturn\<close>: \<open>c.Mutex.Unlock(); return\<close>;
  \<^item> \<open>AtMark\<close>: \<open>c.Visited[pageURL] = true\<close>;
  \<^item> \<open>AtUnlock\<close>: \<open>c.Mutex.Unlock()\<close>;
  \<^item> \<open>AtFetch\<close>: the announcement and \<open>c.fetchURL(pageURL)\<close>, recorded in \<open>fetches\<close>;
  \<^item> \<open>Fetched\<close> and \<open>Returned\<close>: after the fetch, and after the early return.
\<close>

datatype pc = AtLock | AtTest | AtUnlockReturn | AtMark | AtUnlock | AtFetch | Fetched | Returned

record shared =
  locked :: bool
  seen :: "string \<rightharpoonup> bool"
  pcs :: "nat \<Rightarrow> pc"
  fetches :: "string list"

definition start :: shared where
  "start = \<lparr>locked = False, seen = Map.empty, pcs = (\<lambda>i. AtLock), fetches = []\<rparr>"

definition seen_true :: "shared \<Rightarrow> string \<Rightarrow> bool" where
  "seen_true s u = (case seen s u of None \<Rightarrow> False | Some b \<Rightarrow> b)"

inductive step :: "(nat \<Rightarrow> string) \<Rightarrow> shared \<Rightarrow> shared \<Rightarrow> bool" for arg :: "nat \<Rightarrow> string" where
  lock: "pcs s i = AtLock \<Longrightarrow> \<not> locked s
         \<Longrightarrow> step arg s (s\<lparr>locked := True, pcs := (pcs s)(i := AtTest)\<rparr>)"
| test_seen: "pcs s i = AtTest \<Longrightarrow> seen_true s (arg i)
         \<Longrightarrow> step arg s (s\<lparr>pcs := (pcs s)(i := AtUnlockReturn)\<rparr>)"
| test_new: "pcs s i = AtTest \<Longrightarrow> \<not> seen_true s (arg i)
         \<Longrightarrow> step arg s (s\<lparr>pcs := (pcs s)(i := AtMark)\<rparr>)"
| unlock_return: "pcs s i = AtUnlockReturn
         \<Longrightarrow> step arg s (s\<lparr>locked := False, pcs := (pcs s)(i := Returned)\<rparr>)"
| mark: "pcs s i = AtMark
         \<Longrightarrow> step arg s (s\<lparr>seen := (seen s)(arg i \<mapsto> True), pcs := (pcs s)(i := AtUnlock)\<rparr>)"
| unlock: "pcs s i = AtUnlock
         \<Longrightarrow> step arg s (s\<lparr>locked := False, pcs := (pcs s)(i := AtFetch)\<rparr>)"
| fetch: "pcs s i = AtFetch
         \<Longrightarrow> step arg s (s\<lparr>pcs := (pcs s)(i := Fetched), fetches := fetches s @ [arg i]\<rparr>)"

inductive reachable :: "(nat \<Rightarrow> string) \<Rightarrow> shared \<Rightarrow> bool" for arg :: "nat \<Rightarrow> string" where
  reach_start: "reachable arg start"
| reach_step: "reachable arg s \<Longrightarrow> step arg s t \<Longrightarrow> reachable arg t"

section \<open>Notions used in the statements\<close>

text \<open>
  \<open>firstRequest u\<close> is the request that \<open>fetchURL\<close> builds for a page URL that
  parses to \<open>u\<close> (\<open>http.NewRequest\<close>, then the User-Agent header), \<open>retryRequest u\<close>
  the same request after \<open>req.URL\<close> has been replaced by \<open>u\<close> with the other scheme.
\<close>

definition firstRequest :: "URL \<Rightarrow> Request" where
  "firstRequest u =
     \<lparr>Method = ''GET'', req_URL = u\<lparr>Host := removeEmptyPort (Host u)\<rparr>,
      Header = [(''User-Agent'', userAgent)]\<rparr>"

definition retryRequest :: "URL \<Rightarrow> Request" where
  "retryRequest u = (firstRequest u)\<lparr>req_URL := flipScheme u\<rparr>"

text \<open>The line that \<open>processURL\<close> prints before it fetches a page.\<close>

definition crawlingLine :: "string \<Rightarrow> string" where
  "crawlingLine u = ''Crawling: '' @ u"

text \<open>
  What makes \<open>processURL\<close> give a page up: an error from \<open>fetchURL\<close>, a status other
  than 200, or a body that \<open>html.Parse\<close> cannot read.
\<close>

definition page_unusable :: "(string \<Rightarrow> Node) \<Rightarrow> error + Response \<Rightarrow> bool" where
  "page_unusable hp r =
     (case r of
        Inl err \<Rightarrow> True
      | Inr resp \<Rightarrow> StatusCode resp \<noteq> 200 \<or> isl (html_Parse hp (Body resp)))"

definition returned :: "'a outcome \<Rightarrow> 'a option" where
  "returned x = (case x of Returns v \<Rightarrow> Some v | Panics \<Rightarrow> None | Blocks \<Rightarrow> None | Exits \<Rightarrow> None)"

text \<open>Fields that a part of the program leaves alone.\<close>

definition keeps :: "Proc \<Rightarrow> Proc \<Rightarrow> bool" where
  "keeps c c' =
     (Visited c' = Visited c \<and> Stdout c' = Stdout c \<and> InScope c' = InScope c
      \<and> OutScope c' = OutScope c)"

definition keeps_queue :: "Proc \<Rightarrow> Proc \<Rightarrow> bool" where
  "keeps_queue c c' = (keeps c c' \<and> Queue c' = Queue c \<and> WG c' = WG c)"

text \<open>
  Every line on standard output announces a page that is marked in \<open>Visited\<close>, and
  no line is printed twice.
\<close>

definition announced_once :: "Proc \<Rightarrow> bool" where
  "announced_once c =
     (distinct (Stdout c) \<and> (\<forall>l \<in> set (Stdout c). \<exists>u. l = crawlingLine u \<and> visited c u))"

text \<open>
  The invariant of the prologue under several workers: \<open>crit\<close> are the program
  counters inside the critical section, \<open>marked\<close> those after the URL was marked.
\<close>

definition crit :: "pc \<Rightarrow> bool" where
  "crit p = (p = AtTest \<or> p = AtUnlockReturn \<or> p = AtMark \<or> p = AtUnlock)"

definition marked :: "pc \<Rightarrow> bool" where
  "marked p = (p = AtUnlock \<or> p = AtFetch \<or> p = Fetched)"

definition reached_fetch :: "pc \<Rightarrow> bool" where
  "reached_fetch p = (p = AtFetch \<or> p = Fetched)"

definition inv :: "(nat \<Rightarrow> string) \<Rightarrow> shared \<Rightarrow> bool" where
  "inv arg s =
     ((\<forall>i j. crit (pcs s i) \<and> crit (pcs s j) \<longrightarrow> i = j)
      \<and> (\<not> locked s \<longrightarrow> (\<forall>i. \<not> crit (pcs s i)))
      \<and> (\<forall>i. marked (pcs s i) \<longrightarrow> seen_true s (arg i))
      \<and> (\<forall>i. pcs s i = AtMark \<longrightarrow> \<not> seen_true s (arg i))
      \<and> (\<forall>i j. marked (pcs s i) \<and> marked (pcs s j) \<and> arg i = arg j \<longrightarrow> i = j)
      \<and> distinct (fetches s)
      \<and> (\<forall>i. marked (pcs s i) \<and> pcs s i \<noteq> Fetched \<longrightarrow> arg i \<notin> set (fetches s))
      \<and> (\<forall>u \<in> set (fetches s). seen_true s u))"

text \<open>
  Every \<open>WriteString\<close> writes all its bytes; and the text of a list of records, each
  followed by a newline.
\<close>

definition complete_writes :: "(string \<Rightarrow> string \<Rightarrow> string \<Rightarrow> nat) \<Rightarrow> bool" where
  "complete_writes wr = (\<forall>name old s. length s \<le> wr name old s)"

definition as_lines :: "string list \<Rightarrow> string" where
  "as_lines records = concat (map (\<lambda>u. u @ [CHR 0x0A]) records)"

text \<open>
  Bytes that may stand unescaped before the fragment of a URL: no control character,
  no \<open>#\<close>, no \<open>?\<close>. A path is safe when all its bytes are and its escapes decode; a
  query is fine when it holds no \<open>#\<close> and no control character.
\<close>

definition plain :: "char \<Rightarrow> bool" where
  "plain c = (32 \<le> byte c \<and> byte c \<noteq> 127 \<and> c \<noteq> CHR ''#'' \<and> c \<noteq> CHR ''?'')"

definition pathSafe :: "string \<Rightarrow> bool" where
  "pathSafe s = (list_all plain s \<and> (\<exists>x. unescape s encodePath = Inr x))"

definition queryOK :: "string \<Rightarrow> bool" where
  "queryOK q = (CHR ''#'' \<notin> set q \<and> \<not> stringContainsCTLByte q)"

text \<open>Every record sent to the sink begins with the label of its channel.\<close>

definition formatted :: "Proc \<Rightarrow> bool" where
  "formatted c =
     (list_all (\<lambda>r. HasPrefix r ''In-scope: '') (inScopeCh c)
      \<and> list_all (\<lambda>r. HasPrefix r ''Out-Of-Scope: '') (outScopeCh c))"

text \<open>
  The queue is a channel of capacity 100 and its only receiver is the worker, which
  is the goroutine that runs the loop over the links. \<open>queue_fits d urls\<close>: the loop
  over \<open>urls\<close>, begun in \<open>d\<close>, has nothing to send on the queue, or what it sends fits
  with the URLs pending.
\<close>

definition queue_fits :: "Proc \<Rightarrow> string list \<Rightarrow> bool" where
  "queue_fits d urls =
     (filter (\<lambda>v. isValidURL v \<and> isInScope d v) urls = []
      \<or> length (Queue d) + length (filter (\<lambda>v. isValidURL v \<and> isInScope d v) urls) \<le> 100)"

section \<open>Concrete inputs\<close>

text \<open>
  Networks, documents and crawlers on which the statements are evaluated: a network
  that refuses every connection, one that answers 404 to everything, one that serves
  the same page for every request, and a document with a link to the page itself and
  two links to the same other page.
\<close>

definition netDown :: transport where
  "netDown n req = Inl (TransportError ''connection refused'')"

definition net404 :: transport where
  "net404 n req = Inr \<lparr>StatusCode = 404, Body = Inr []\<rparr>"

definition netPage :: transport where
  "netPage n req =
     Inr \<lparr>StatusCode = 200, Body = Inr ''<a href=/></a><a href=/b></a><a href=/b></a>''\<rparr>"

definition href :: "string \<Rightarrow> Attribute" where
  "href v = \<lparr>Namespace = [], Key = ''href'', Val = v\<rparr>"

definition docLinks :: Node where
  "docLinks =
     Node DocumentNode [] []
       [Node ElementNode ''html'' []
          [Node ElementNode ''head'' [] [],
           Node ElementNode ''body'' []
             [Node ElementNode ''a'' [href ''/''] [],
              Node ElementNode ''a'' [href ''/b''] [],
              Node ElementNode ''a'' [href ''/b''] []]]]"

definition fixedParser :: "Node \<Rightarrow> string \<Rightarrow> Node" where
  "fixedParser doc bytes = doc"

definition url_a_com :: URL where
  "url_a_com = emptyURL\<lparr>Scheme := ''http'', Host := ''a.com'', Path := ''/''\<rparr>"

definition crawler_a_com :: Proc where
  "crawler_a_com = NewCrawler [''a.com''] [[]]"

definition sameURL :: "nat \<Rightarrow> string" where
  "sameURL i = ''http://a.com/''"

definition two_workers_done :: shared where
  "two_workers_done =
     \<lparr>locked = False, seen = [''http://a.com/'' \<mapsto> True],
      pcs = (\<lambda>i. AtLock)(0 := Fetched, 1 := Returned), fetches = [''http://a.com/'']\<rparr>"

text \<open>
  The crawler for \<open>-inscope a.com\<close> after its first page, \<open>http://a.com/\<close>: when the
  network is down, and when the page holds the three links of \<open>docLinks\<close>.
\<close>

definition crawl_a_com_failed :: Proc where
  "crawl_a_com_failed =
     crawler_a_com\<lparr>Visited := [''http://a.com/'' \<mapsto> True],
       Stdout := [crawlingLine ''http://a.com/''],
       Requests := [firstRequest url_a_com, retryRequest url_a_com]\<rparr>"

definition crawl_a_com_linked :: Proc where
  "crawl_a_com_linked =
     crawler_a_com\<lparr>Visited := [''http://a.com/'' \<mapsto> True],
       Stdout := [crawlingLine ''http://a.com/''],
       Requests := [firstRequest url_a_com],
       inScopeCh := [''In-scope: http://a.com/'', ''In-scope: http://a.com/b'', ''In-scope: http://a.com/b''],
       Queue := [''http://a.com/'', ''http://a.com/b'', ''http://a.com/b''],
       WG := 3\<rparr>"

text \<open>
  A disk on which every file can be created and every write completes; a page whose
  head loads the script \<open>/app.js\<close>, and a network that serves that page and a
  script whose text mentions \<open>http://a.com/next\<close>; the crawler for \<open>-inscope a.com\<close>
  after that page, in url-scan.go and in part\_000.
\<close>

definition diskOK :: "string \<Rightarrow> string \<Rightarrow> string \<Rightarrow> nat" where
  "diskOK name old s = length s"

definition anyName :: "string \<Rightarrow> bool" where
  "anyName name = True"

definition src :: "string \<Rightarrow> Attribute" where
  "src v = \<lparr>Namespace = [], Key = ''src'', Val = v\<rparr>"

definition docScript :: Node where
  "docScript =
     Node DocumentNode [] []
       [Node ElementNode ''html'' []
          [Node ElementNode ''head'' [] [Node ElementNode ''script'' [src ''/app.js''] []],
           Node ElementNode ''body'' [] []]]"

definition netScript :: transport where
  "netScript n req =
     (if Path (req_URL req) = ''/app.js''
      then Inr \<lparr>StatusCode = 200, Body = Inr ''// see http://a.com/next for more''\<rparr>
      else Inr \<lparr>StatusCode = 200, Body = Inr ''<script src=/app.js></script>''\<rparr>)"

definition url_app_js :: URL where
  "url_app_js = emptyURL\<lparr>Scheme := ''http'', Host := ''a.com'', Path := ''/app.js''\<rparr>"

definition crawl_a_com_script :: Proc where
  "crawl_a_com_script =
     crawler_a_com\<lparr>Visited := [''http://a.com/'' \<mapsto> True],
       Stdout := [crawlingLine ''http://a.com/''],
       Requests := [firstRequest url_a_com, firstRequest url_app_js],
       inScopeCh := [''In-scope: http://a.com/app.js'', ''In-scope: http://a.com/next''],
       Queue := [''http://a.com/app.js''],
       WG := 1\<rparr>"

definition crawl_a_com_script_part000 :: Proc where
  "crawl_a_com_script_part000 =
     crawler_a_com\<lparr>Visited := [''http://a.com/'' \<mapsto> True],
       Stdout := [crawlingLine ''http://a.com/''],
       Requests := [firstRequest url_a_com, firstRequest url_app_js, firstRequest url_app_js,
                    firstRequest url_app_js, firstRequest url_app_js],
       OutputCh := [''In-scope: http://a.com/app.js'', ''In-scope: http://a.com/next'',
                    ''In-scope: http://a.com/next'', ''In-scope: http://a.com/next'',
                    ''In-scope: http://a.com/next''],
       Queue := [''http://a.com/app.js'', ''http://a.com/next'', ''http://a.com/next'',
                 ''http://a.com/next'', ''http://a.com/next''],
       WG := 5\<rparr>"

text \<open>The base URL \<open>http://a.com/x/\<close>, parsed.\<close>

definition url_a_com_x :: URL where
  "url_a_com_x = emptyURL\<lparr>Scheme := ''http'', Host := ''a.com'', Path := ''/x/''\<rparr>"

section \<open>Properties of the model\<close>

subsection \<open>What each operation leaves unchanged\<close>

lemma keeps_refl: "keeps c c"
  by (simp add: keeps_def)

lemma keeps_trans: "keeps a b \<Longrightarrow> keeps b c \<Longrightarrow> keeps a c"
  by (simp add: keeps_def)

lemma keeps_queue_refl: "keeps_queue c c"
  by (simp add: keeps_queue_def keeps_refl)

lemma keeps_queue_trans: "keeps_queue a b \<Longrightarrow> keeps_queue b c \<Longrightarrow> keeps_queue a c"
  by (simp add: keeps_queue_def keeps_def)

lemma isInScope_keeps: "keeps c c' \<Longrightarrow> isInScope c' u = isInScope c u"
  by (simp add: keeps_def isInScope_def split: sum.splits)

lemma fetchURL_returns: "\<exists>r c'. fetchURL tr c u = Returns (r, c')"
  by (auto simp: fetchURL_def http_NewRequest_def client_Do_def Let_def split: sum.splits)

lemma fetchURL_keeps: "fetchURL tr c u = Returns (r, c') \<Longrightarrow> keeps_queue c c'"
  by (auto simp: fetchURL_def http_NewRequest_def client_Do_def Let_def keeps_queue_def keeps_def
        split: sum.splits if_splits)

lemma fetchURL_channels:
  "fetchURL tr c u = Returns (r, c') \<Longrightarrow>
     inScopeCh c' = inScopeCh c \<and> outScopeCh c' = outScopeCh c \<and> OutputCh c' = OutputCh c"
  by (auto simp: fetchURL_def http_NewRequest_def client_Do_def Let_def split: sum.splits if_splits)

lemma emitScriptURL_keeps: "keeps_queue c (emitScriptURL c u)"
  by (simp add: emitScriptURL_def keeps_queue_def keeps_def)

lemma foldl_emitScriptURL_keeps: "keeps_queue c (foldl emitScriptURL c us)"
proof (induction us arbitrary: c)
  case Nil
  show ?case by (simp add: keeps_queue_refl)
next
  case (Cons u us)
  show ?case
    using keeps_queue_trans [OF emitScriptURL_keeps [of c u] Cons.IH [of "emitScriptURL c u"]]
    by simp
qed

lemma extractURLsFromScript_keeps:
  "extractURLsFromScript tr c u = Returns c' \<Longrightarrow> keeps_queue c c'"
  unfolding extractURLsFromScript_def
  by (auto split: outcome.splits sum.splits if_splits dest!: fetchURL_keeps
        intro: keeps_queue_trans [OF _ foldl_emitScriptURL_keeps])

lemma routeURL_keeps: "routeURL c u = Returns c' \<Longrightarrow> keeps c c'"
  by (auto simp: routeURL_def keeps_def split: if_splits)

lemma routeURL_Queue:
  "routeURL c u = Returns c' \<Longrightarrow>
     Queue c' = Queue c @ (if isValidURL u \<and> isInScope c u then [u] else [])"
  by (auto simp: routeURL_def split: if_splits)

lemma processURL_loop_keeps:
  "processURL_loop tr c us = Returns c' \<Longrightarrow> keeps c c'"
proof (induction us arbitrary: c)
  case Nil
  then show ?case by (simp add: keeps_refl)
next
  case (Cons u us)
  from Cons.prems obtain c1 c2 where
    r: "routeURL c u = Returns c1" and
    e: "(if isCodeFile u then extractURLsFromScript tr c1 u else Returns c1) = Returns c2" and
    l: "processURL_loop tr c2 us = Returns c'"
    by (auto split: outcome.splits)
  have "keeps c1 c2"
    using e extractURLsFromScript_keeps [of tr c1 u c2]
    by (auto simp: keeps_queue_def keeps_refl split: if_splits)
  with routeURL_keeps [OF r] Cons.IH [OF l] show ?case
    by (blast intro: keeps_trans)
qed

lemma processURL_loop_Queue:
  "processURL_loop tr c us = Returns c' \<Longrightarrow>
     Queue c' = Queue c @ filter (\<lambda>u. isValidURL u \<and> isInScope c u) us"
proof (induction us arbitrary: c)
  case Nil
  then show ?case by simp
next
  case (Cons u us)
  from Cons.prems obtain c1 c2 where
    r: "routeURL c u = Returns c1" and
    e: "(if isCodeFile u then extractURLsFromScript tr c1 u else Returns c1) = Returns c2" and
    l: "processURL_loop tr c2 us = Returns c'"
    by (auto split: outcome.splits)
  have k12: "keeps_queue c1 c2"
    using e extractURLsFromScript_keeps [of tr c1 u c2]
    by (auto simp: keeps_queue_refl split: if_splits)
  then have k: "keeps c c2"
    using routeURL_keeps [OF r] by (auto simp: keeps_queue_def intro: keeps_trans)
  have "Queue c2 = Queue c @ (if isValidURL u \<and> isInScope c u then [u] else [])"
    using routeURL_Queue [OF r] k12 by (simp add: keeps_queue_def)
  moreover have "filter (\<lambda>v. isValidURL v \<and> isInScope c2 v) us
               = filter (\<lambda>v. isValidURL v \<and> isInScope c v) us"
    by (simp add: isInScope_keeps [OF k])
  ultimately show ?case
    using Cons.IH [OF l] by simp
qed

subsection \<open>A visited page is never announced again\<close>

lemma processURL_visited: "visited c u \<Longrightarrow> processURL tr hp c u = Returns c"
  by (simp add: processURL_def)

lemma processURL_marks:
  assumes "processURL tr hp c u = Returns c'" and "\<not> visited c u"
  shows "Visited c' = (Visited c)(u \<mapsto> True) \<and> Stdout c' = Stdout c @ [crawlingLine u]"
proof -
  define c0 where "c0 = c\<lparr>Visited := (Visited c)(u \<mapsto> True), Stdout := Stdout c @ [''Crawling: '' @ u]\<rparr>"
  obtain r c1 where f: "fetchURL tr c0 u = Returns (r, c1)"
    using fetchURL_returns by blast
  have k01: "keeps c0 c1" using fetchURL_keeps [OF f] by (simp add: keeps_queue_def)
  have "keeps c1 c'"
    using assms f unfolding processURL_def c0_def
    by (auto simp: keeps_refl dest: processURL_loop_keeps
          split: sum.splits if_splits option.splits)
  with k01 have "keeps c0 c'" by (rule keeps_trans)
  then show ?thesis by (simp add: keeps_def c0_def crawlingLine_def)
qed

lemma processURL_keeps_visited:
  assumes "processURL tr hp c u = Returns c'" and "visited c p"
  shows "visited c' p
         \<and> count_list (Stdout c') (crawlingLine p) = count_list (Stdout c) (crawlingLine p)"
proof (cases "visited c u")
  case True
  with assms show ?thesis by (simp add: processURL_def)
next
  case False
  with assms(2) have ne: "u \<noteq> p" by auto
  from processURL_marks [OF assms(1) False] ne assms(2) show ?thesis
    by (simp add: visited_def crawlingLine_def)
qed

lemma worker_turn_processURL:
  assumes "worker_turn tr hp c = Some (Returns c2)"
  obtains url q c1 where "Queue c = url # q"
    and "processURL tr hp (c\<lparr>Queue := q\<rparr>) url = Returns c1"
    and "c2 = c1\<lparr>WG := WG c1 - 1\<rparr>"
  using assms by (auto simp: worker_turn_def split: list.splits outcome.splits)

lemma crawl_run_keeps_visited:
  "crawl_run tr hp d d' \<Longrightarrow> visited d p \<Longrightarrow>
     visited d' p
     \<and> count_list (Stdout d') (crawlingLine p) = count_list (Stdout d) (crawlingLine p)"
proof (induction rule: crawl_run.induct)
  case (run_refl c)
  then show ?case by simp
next
  case (run_step c c1 c2)
  then have v1: "visited c1 p"
    and n1: "count_list (Stdout c1) (crawlingLine p) = count_list (Stdout c) (crawlingLine p)"
    by simp_all
  from run_step.hyps(2) obtain url q c1' where
    q: "Queue c1 = url # q" and
    pr: "processURL tr hp (c1\<lparr>Queue := q\<rparr>) url = Returns c1'" and
    c2: "c2 = c1'\<lparr>WG := WG c1' - 1\<rparr>"
    by (rule worker_turn_processURL)
  have "visited (c1\<lparr>Queue := q\<rparr>) p" using v1 by (simp add: visited_def)
  from processURL_keeps_visited [OF pr this] n1 c2 show ?case
    by (simp add: visited_def)
qed

lemma processURL_announced_once:
  assumes "processURL tr hp c u = Returns c'" and "announced_once c"
  shows "announced_once c'"
proof (cases "visited c u")
  case True
  with assms show ?thesis by (simp add: processURL_def)
next
  case False
  from processURL_marks [OF assms(1) False]
  have V: "Visited c' = (Visited c)(u \<mapsto> True)" and S: "Stdout c' = Stdout c @ [crawlingLine u]"
    by simp_all
  have fresh: "crawlingLine u \<notin> set (Stdout c)"
  proof
    assume "crawlingLine u \<in> set (Stdout c)"
    with assms(2) obtain u' where "crawlingLine u = crawlingLine u'" and "visited c u'"
      by (auto simp: announced_once_def)
    with False show False by (simp add: crawlingLine_def)
  qed
  have old: "\<exists>u'. l = crawlingLine u' \<and> visited c' u'" if "l \<in> set (Stdout c)" for l
  proof -
    from that assms(2) obtain u' where "l = crawlingLine u'" and "visited c u'"
      by (auto simp: announced_once_def)
    then show ?thesis using V by (auto simp: visited_def)
  qed
  have new: "visited c' u" using V by (simp add: visited_def)
  from assms(2) fresh old new show ?thesis
    by (auto simp: announced_once_def S)
qed

lemma crawl_run_announced_once:
  "crawl_run tr hp c c' \<Longrightarrow> announced_once c \<Longrightarrow> announced_once c'"
proof (induction rule: crawl_run.induct)
  case (run_refl c)
  then show ?case by simp
next
  case (run_step c c1 c2)
  then have a1: "announced_once c1" by simp
  from run_step.hyps(2) obtain url q c1' where
    pr: "processURL tr hp (c1\<lparr>Queue := q\<rparr>) url = Returns c1'" and
    c2: "c2 = c1'\<lparr>WG := WG c1' - 1\<rparr>"
    by (rule worker_turn_processURL)
  have "announced_once (c1\<lparr>Queue := q\<rparr>)"
    using a1 by (simp add: announced_once_def visited_def)
  from processURL_announced_once [OF pr this] c2 show ?case
    by (simp add: announced_once_def visited_def)
qed

subsection \<open>The invariant of the prologue under several workers\<close>

lemma inv_start: "inv arg start"
  by (simp add: inv_def start_def crit_def marked_def)

lemma inv_step:
  assumes "inv arg s" and "step arg s t"
  shows "inv arg t"
  using assms(2)
proof (cases rule: step.cases)
  case (lock i)
  with assms(1) show ?thesis
    unfolding inv_def by (auto simp: crit_def marked_def seen_true_def)
next
  case (test_seen i)
  with assms(1) show ?thesis
    unfolding inv_def by (auto simp: crit_def marked_def seen_true_def)
next
  case (test_new i)
  with assms(1) show ?thesis
    unfolding inv_def by (auto simp: crit_def marked_def seen_true_def)
next
  case (unlock_return i)
  with assms(1) show ?thesis
    unfolding inv_def by (auto simp: crit_def marked_def seen_true_def)
next
  case (mark i)
  with assms(1) show ?thesis
    unfolding inv_def by (auto simp: crit_def marked_def seen_true_def)
next
  case (unlock i)
  with assms(1) show ?thesis
    unfolding inv_def by (auto simp: crit_def marked_def seen_true_def)
next
  case (fetch i)
  with assms(1) show ?thesis
    unfolding inv_def by (auto simp: crit_def marked_def seen_true_def)
qed

lemma reachable_inv: "reachable arg s \<Longrightarrow> inv arg s"
  by (induction rule: reachable.induct) (auto intro: inv_start inv_step)

lemma reachable_two_workers: "reachable sameURL two_workers_done"
proof -
  let ?u = "''http://a.com/''"
  have s0: "reachable sameURL start" by (rule reach_start)
  have s1: "reachable sameURL (start\<lparr>locked := True, pcs := (pcs start)(0 := AtTest)\<rparr>)"
    by (rule reach_step [OF s0], rule lock) (simp_all add: start_def)
  let ?s1 = "\<lparr>locked = True, seen = Map.empty, pcs = (\<lambda>i. AtLock)(0 := AtTest), fetches = []\<rparr>"
  have r1: "reachable sameURL ?s1" using s1 by (simp add: start_def)
  let ?s2 = "\<lparr>locked = True, seen = Map.empty, pcs = (\<lambda>i. AtLock)(0 := AtMark), fetches = []\<rparr>"
  have "step sameURL ?s1 (?s1\<lparr>pcs := (pcs ?s1)(0 := AtMark)\<rparr>)"
    by (rule test_new) (simp_all add: seen_true_def)
  then have r2: "reachable sameURL ?s2" using reach_step [OF r1] by simp
  let ?s3 = "\<lparr>locked = True, seen = [?u \<mapsto> True], pcs = (\<lambda>i. AtLock)(0 := AtUnlock), fetches = []\<rparr>"
  have "step sameURL ?s2 (?s2\<lparr>seen := (seen ?s2)(sameURL 0 \<mapsto> True), pcs := (pcs ?s2)(0 := AtUnlock)\<rparr>)"
    by (rule mark) simp
  then have r3: "reachable sameURL ?s3" using reach_step [OF r2] by (simp add: sameURL_def)
  let ?s4 = "\<lparr>locked = False, seen = [?u \<mapsto> True], pcs = (\<lambda>i. AtLock)(0 := AtFetch), fetches = []\<rparr>"
  have "step sameURL ?s3 (?s3\<lparr>locked := False, pcs := (pcs ?s3)(0 := AtFetch)\<rparr>)"
    by (rule unlock) simp
  then have r4: "reachable sameURL ?s4" using reach_step [OF r3] by simp
  let ?s5 = "\<lparr>locked = True, seen = [?u \<mapsto> True], pcs = (\<lambda>i. AtLock)(0 := AtFetch, 1 := AtTest), fetches = []\<rparr>"
  have "step sameURL ?s4 (?s4\<lparr>locked := True, pcs := (pcs ?s4)(1 := AtTest)\<rparr>)"
    by (rule lock) simp_all
  then have r5: "reachable sameURL ?s5" using reach_step [OF r4] by simp
  let ?s6 = "\<lparr>locked = True, seen = [?u \<mapsto> True], pcs = (\<lambda>i. AtLock)(0 := AtFetch, 1 := AtUnlockReturn), fetches = []\<rparr>"
  have "step sameURL ?s5 (?s5\<lparr>pcs := (pcs ?s5)(1 := AtUnlockReturn)\<rparr>)"
    by (rule test_seen) (simp_all add: seen_true_def sameURL_def)
  then have r6: "reachable sameURL ?s6" using reach_step [OF r5] by simp
  let ?s7 = "\<lparr>locked = False, seen = [?u \<mapsto> True], pcs = (\<lambda>i. AtLock)(0 := AtFetch, 1 := Returned), fetches = []\<rparr>"
  have "step sameURL ?s6 (?s6\<lparr>locked := False, pcs := (pcs ?s6)(1 := Returned)\<rparr>)"
    by (rule unlock_return) simp
  then have r7: "reachable sameURL ?s7" using reach_step [OF r6] by simp
  have "step sameURL ?s7 (?s7\<lparr>pcs := (pcs ?s7)(0 := Fetched), fetches := fetches ?s7 @ [sameURL 0]\<rparr>)"
    by (rule fetch) simp
  then have "reachable sameURL (?s7\<lparr>pcs := (pcs ?s7)(0 := Fetched), fetches := fetches ?s7 @ [sameURL 0]\<rparr>)"
    using reach_step [OF r7] by blast
  moreover have "(\<lambda>i. AtLock)(0 := AtFetch, 1 := Returned, 0 := Fetched) = (\<lambda>i. AtLock)(0 := Fetched, Suc 0 := Returned)"
    by (auto simp: fun_eq_iff)
  ultimately show ?thesis
    by (simp add: two_workers_done_def sameURL_def)
qed

subsection \<open>The concrete inputs evaluated\<close>

lemma parse_a_com: "url_Parse ''http://a.com/'' = Inr url_a_com"
  by code_simp

lemma parse_a_com_b:
  "url_Parse ''http://a.com/b'' = Inr (emptyURL\<lparr>Scheme := ''http'', Host := ''a.com'', Path := ''/b''\<rparr>)"
  by code_simp

lemma links_docLinks:
  "extractLinks ''http://a.com/'' docLinks
     = Some [''http://a.com/'', ''http://a.com/b'', ''http://a.com/b'']"
  by code_simp

lemma inScope_a_com: "InScope c = [''a.com''] \<Longrightarrow> isInScope c ''http://a.com/''"
  by (simp add: isInScope_def parse_a_com url_a_com_def emptyURL_def HasSuffix_def suffix_to_prefix)

lemma inScope_a_com_b: "InScope c = [''a.com''] \<Longrightarrow> isInScope c ''http://a.com/b''"
  by (simp add: isInScope_def parse_a_com_b emptyURL_def HasSuffix_def suffix_to_prefix)

lemma valid_a_com: "isValidURL ''http://a.com/'' \<and> isValidURL ''http://a.com/b''"
  by code_simp

lemma not_code_a_com: "\<not> isCodeFile ''http://a.com/'' \<and> \<not> isCodeFile ''http://a.com/b''"
  by code_simp

lemma fetch_a_com:
  "fetchURL tr c ''http://a.com/'' =
     (if ok200 (tr (length (Requests c)) (firstRequest url_a_com)) then
        Returns (tr (length (Requests c)) (firstRequest url_a_com),
                 c\<lparr>Requests := Requests c @ [firstRequest url_a_com]\<rparr>)
      else
        Returns (tr (Suc (length (Requests c))) (retryRequest url_a_com),
                 c\<lparr>Requests := Requests c @ [firstRequest url_a_com, retryRequest url_a_com]\<rparr>))"
  by (simp add: fetchURL_def http_NewRequest_def parse_a_com client_Do_def Let_def
        firstRequest_def retryRequest_def)

lemma distinct_count_le_1: "distinct xs \<Longrightarrow> count_list xs a \<le> 1"
  by (induction xs) auto

lemma process_a_com_down:
  "\<not> visited c ''http://a.com/'' \<Longrightarrow>
   processURL netDown hp c ''http://a.com/''
     = Returns (c\<lparr>Visited := (Visited c)(''http://a.com/'' \<mapsto> True),
                  Stdout := Stdout c @ [crawlingLine ''http://a.com/''],
                  Requests := Requests c @ [firstRequest url_a_com, retryRequest url_a_com]\<rparr>)"
  by (simp add: processURL_def fetch_a_com netDown_def ok200_def crawlingLine_def)

lemma turn_a_com_down:
  "worker_turn netDown hp (Crawl_start crawler_a_com ''http://a.com/'') = Some (Returns crawl_a_com_failed)"
  by (simp add: worker_turn_def Crawl_start_def crawler_a_com_def NewCrawler_def
        process_a_com_down visited_def crawl_a_com_failed_def)

lemma loop_links:
  "InScope c = [''a.com''] \<Longrightarrow> Queue c = [] \<Longrightarrow>
   processURL_loop tr c [''http://a.com/'', ''http://a.com/b'', ''http://a.com/b'']
     = Returns (c\<lparr>inScopeCh := inScopeCh c @ [''In-scope: http://a.com/'', ''In-scope: http://a.com/b'', ''In-scope: http://a.com/b''],
                  Queue := [''http://a.com/'', ''http://a.com/b'', ''http://a.com/b''],
                  WG := WG c + 3\<rparr>)"
  by (simp add: routeURL_def valid_a_com not_code_a_com inScope_a_com inScope_a_com_b)

lemma process_a_com_page:
  "processURL netPage (fixedParser docLinks) crawler_a_com ''http://a.com/'' = Returns crawl_a_com_linked"
proof -
  have "processURL_loop netPage
          (crawler_a_com\<lparr>Visited := [''http://a.com/'' \<mapsto> True],
             Stdout := [crawlingLine ''http://a.com/''], Requests := [firstRequest url_a_com]\<rparr>)
          [''http://a.com/'', ''http://a.com/b'', ''http://a.com/b'']
        = Returns crawl_a_com_linked"
    by (subst loop_links) (simp_all add: crawler_a_com_def NewCrawler_def crawl_a_com_linked_def)
  then show ?thesis
    by (simp add: processURL_def fetch_a_com netPage_def ok200_def html_Parse_def fixedParser_def
          links_docLinks crawler_a_com_def NewCrawler_def visited_def crawlingLine_def
          del: processURL_loop.simps)
qed

subsection \<open>Writing the files\<close>

lemma split_empty: "Split [] '','' = [[]]"
  by (simp add: Split_def)

lemma WriteString_complete:
  "complete_writes wr \<Longrightarrow> WriteString wr name fs s = fs(name \<mapsto> content fs name @ s)"
  by (simp add: WriteString_def complete_writes_def)

lemma foldl_WriteString_filter:
  assumes "complete_writes wr"
  shows "fs name = Some old \<Longrightarrow>
         foldl (\<lambda>f u. if P u then WriteString wr name f (u @ [CHR 0x0A]) else f) fs us
           = fs(name \<mapsto> old @ as_lines (filter P us))"
proof (induction us arbitrary: fs old)
  case Nil
  then show ?case by (auto simp: as_lines_def)
next
  case (Cons u us)
  show ?case
  proof (cases "P u")
    case False
    then show ?thesis using Cons.IH [of fs old] Cons.prems by simp
  next
    case True
    let ?fs1 = "WriteString wr name fs (u @ [CHR 0x0A])"
    have 1: "?fs1 = fs(name \<mapsto> old @ u @ [CHR 0x0A])"
      using Cons.prems by (simp add: WriteString_complete [OF assms] content_def)
    then have 2: "?fs1 name = Some (old @ u @ [CHR 0x0A])" by simp
    have "foldl (\<lambda>f u. if P u then WriteString wr name f (u @ [CHR 0x0A]) else f) fs (u # us)
          = foldl (\<lambda>f u. if P u then WriteString wr name f (u @ [CHR 0x0A]) else f) ?fs1 us"
      using True by simp
    also have "\<dots> = ?fs1(name \<mapsto> (old @ u @ [CHR 0x0A]) @ as_lines (filter P us))"
      by (rule Cons.IH) (rule 2)
    also have "\<dots> = fs(name \<mapsto> old @ as_lines (filter P (u # us)))"
      unfolding 1 using True by (simp add: as_lines_def)
    finally show ?thesis .
  qed
qed

lemma foldl_WriteString:
  assumes "complete_writes wr" and "fs name = Some old"
  shows "foldl (\<lambda>f u. WriteString wr name f (u @ [CHR 0x0A])) fs us
           = fs(name \<mapsto> old @ as_lines us)"
  using foldl_WriteString_filter [where wr = wr and fs = fs and name = name and old = old
          and P = "\<lambda>u. True" and us = us] assms by simp

lemma writeToFiles_output:
  assumes "cr inName" and "cr outName" and "inName \<noteq> outName" and "complete_writes wr"
  shows "\<exists>fs'. writeToFiles cr wr fs inName outName ins outs = Returns fs'
           \<and> fs' inName = Some (''--IN SCOPE URLS:---'' @ [CHR 0x0A] @ as_lines ins)
           \<and> fs' outName = Some (''--OUT OF SCOPE URLS:---'' @ [CHR 0x0A] @ as_lines outs)
           \<and> (\<forall>name. name \<noteq> inName \<and> name \<noteq> outName \<longrightarrow> fs' name = fs name)"
proof -
  let ?fs3 = "fs(inName \<mapsto> ''--IN SCOPE URLS:---'' @ [CHR 0x0A],
                 outName \<mapsto> ''--OUT OF SCOPE URLS:---'' @ [CHR 0x0A])"
  have h: "WriteString wr outName
             (WriteString wr inName (fs(inName \<mapsto> [], outName \<mapsto> []))
                (''--IN SCOPE URLS:---'' @ [CHR 0x0A]))
             (''--OUT OF SCOPE URLS:---'' @ [CHR 0x0A]) = ?fs3"
    using assms(3) by (auto simp: WriteString_complete [OF assms(4)] content_def)
  have i: "foldl (\<lambda>f u. WriteString wr inName f (u @ [CHR 0x0A])) ?fs3 ins
           = ?fs3(inName \<mapsto> (''--IN SCOPE URLS:---'' @ [CHR 0x0A]) @ as_lines ins)"
    using assms(3) by (intro foldl_WriteString) (simp_all add: assms(4))
  have o: "foldl (\<lambda>f u. WriteString wr outName f (u @ [CHR 0x0A]))
             (?fs3(inName \<mapsto> (''--IN SCOPE URLS:---'' @ [CHR 0x0A]) @ as_lines ins)) outs
           = (?fs3(inName \<mapsto> (''--IN SCOPE URLS:---'' @ [CHR 0x0A]) @ as_lines ins))
               (outName \<mapsto> (''--OUT OF SCOPE URLS:---'' @ [CHR 0x0A]) @ as_lines outs)"
    using assms(3) by (intro foldl_WriteString) (simp_all add: assms(4))
  show ?thesis
    using assms(1,2,3) unfolding writeToFiles_def Let_def h i o by simp
qed

lemma parse_evil_x:
  "url_Parse ''http://evil.com/x'' = Inr (emptyURL\<lparr>Scheme := ''http'', Host := ''evil.com'', Path := ''/x''\<rparr>)"
  by code_simp

subsection \<open>The page with a script, evaluated\<close>

lemma fetchURL_parsed:
  "url_Parse u = Inr p \<Longrightarrow>
   fetchURL tr c u =
     (if ok200 (tr (length (Requests c)) (firstRequest p)) then
        Returns (tr (length (Requests c)) (firstRequest p),
                 c\<lparr>Requests := Requests c @ [firstRequest p]\<rparr>)
      else
        Returns (tr (Suc (length (Requests c))) (retryRequest p),
                 c\<lparr>Requests := Requests c @ [firstRequest p, retryRequest p]\<rparr>))"
  by (simp add: fetchURL_def http_NewRequest_def client_Do_def Let_def
        firstRequest_def retryRequest_def)

lemma parse_app_js: "url_Parse ''http://a.com/app.js'' = Inr url_app_js"
  by code_simp

lemma parse_next:
  "url_Parse ''http://a.com/next'' = Inr (emptyURL\<lparr>Scheme := ''http'', Host := ''a.com'', Path := ''/next''\<rparr>)"
  by code_simp

lemma links_docScript: "extractLinks ''http://a.com/'' docScript = Some [''http://a.com/app.js'']"
  by code_simp

lemma found_in_script: "FindAllString ''// see http://a.com/next for more'' = [''http://a.com/next'']"
  by code_simp

lemma inScope_app_js:
  "InScope c = [''a.com''] \<Longrightarrow> isInScope c ''http://a.com/app.js'' \<and> isInScope c ''http://a.com/next''"
  by (simp add: isInScope_def parse_app_js parse_next url_app_js_def emptyURL_def HasSuffix_def
        suffix_to_prefix)

lemma valid_app_js: "isValidURL ''http://a.com/app.js'' \<and> isValidURL ''http://a.com/next''"
  by code_simp

lemma code_app_js: "isCodeFile ''http://a.com/app.js'' \<and> \<not> isCodeFile ''http://a.com/next''"
  by code_simp

lemma fetch_app_js:
  "fetchURL netScript c ''http://a.com/app.js''
     = Returns (Inr \<lparr>StatusCode = 200, Body = Inr ''// see http://a.com/next for more''\<rparr>,
                c\<lparr>Requests := Requests c @ [firstRequest url_app_js]\<rparr>)"
  by (simp add: fetchURL_parsed [OF parse_app_js] netScript_def ok200_def firstRequest_def
        url_app_js_def emptyURL_def)

lemma fetch_page_netScript:
  "fetchURL netScript c ''http://a.com/''
     = Returns (Inr \<lparr>StatusCode = 200, Body = Inr ''<script src=/app.js></script>''\<rparr>,
                c\<lparr>Requests := Requests c @ [firstRequest url_a_com]\<rparr>)"
  by (simp add: fetchURL_parsed [OF parse_a_com] netScript_def ok200_def firstRequest_def
        url_a_com_def emptyURL_def)

lemma script_app_js:
  "InScope c = [''a.com''] \<Longrightarrow>
   extractURLsFromScript netScript c ''http://a.com/app.js''
     = Returns (c\<lparr>Requests := Requests c @ [firstRequest url_app_js],
                  inScopeCh := inScopeCh c @ [''In-scope: http://a.com/next'']\<rparr>)"
  by (simp add: extractURLsFromScript_def fetch_app_js found_in_script emitScriptURL_def
        inScope_app_js del: FindAllString.simps)

lemma process_a_com_script:
  "processURL netScript (fixedParser docScript) crawler_a_com ''http://a.com/''
     = Returns crawl_a_com_script"
  by (simp add: processURL_def fetch_page_netScript html_Parse_def fixedParser_def links_docScript
        routeURL_def valid_app_js code_app_js inScope_app_js script_app_js
        crawler_a_com_def NewCrawler_def visited_def crawlingLine_def crawl_a_com_script_def)

lemma script_part000:
  "extractURLsFromScript_part000 netScript c ''http://a.com/app.js''
     = Returns ([''http://a.com/next''], c\<lparr>Requests := Requests c @ [firstRequest url_app_js]\<rparr>)"
  by (simp add: extractURLsFromScript_part000_def fetch_app_js found_in_script
        del: FindAllString.simps)

lemma links_part000:
  "extractLinks_part000 netScript ''http://a.com/'' docScript c
     = Returns ([''http://a.com/app.js'', ''http://a.com/next'', ''http://a.com/next'',
                 ''http://a.com/next'', ''http://a.com/next''],
                c\<lparr>Requests := Requests c @ [firstRequest url_app_js, firstRequest url_app_js,
                      firstRequest url_app_js, firstRequest url_app_js]\<rparr>)"
proof -
  have f: "formatURL ''http://a.com/'' ''/app.js'' = ''http://a.com/app.js''"
    by code_simp
  show ?thesis
    by (simp add: docScript_def elementLinks_def linkTags_def attrLinks_def src_def f
          script_part000 code_app_js)
qed

lemma process_a_com_script_part000:
  "processURL_part000 netScript (fixedParser docScript) crawler_a_com ''http://a.com/''
     = Returns crawl_a_com_script_part000"
  by (simp add: processURL_part000_def fetch_page_netScript html_Parse_def fixedParser_def
        links_part000 routeURL_part000_def valid_app_js inScope_app_js
        crawler_a_com_def NewCrawler_def visited_def crawlingLine_def
        crawl_a_com_script_part000_def)

subsection \<open>Resolving a reference against http://a.com/x/\<close>

lemma Index_char_notin: "c \<notin> set a \<Longrightarrow> Index a [c] = None"
  by (induction a) auto

lemma Index_char_first: "c \<notin> set a \<Longrightarrow> Index (a @ c # b) [c] = Some (length a)"
  by (induction a) auto

lemma Cut_char_notin: "c \<notin> set a \<Longrightarrow> Cut a [c] = (a, [], False)"
  by (simp add: Cut_def Index_char_notin)

lemma Cut_char_first: "c \<notin> set a \<Longrightarrow> Cut (a @ c # b) [c] = (a, b, True)"
  by (simp add: Cut_def Index_char_first)

lemma Count_char: "Count s [c] = count_list s c"
  by (induction s) auto

lemma Index_Some_set: "Index s [c] = Some i \<Longrightarrow> i < length s \<and> s ! i = c"
proof (induction s arbitrary: i)
  case Nil
  then show ?case by simp
next
  case (Cons x xs)
  then show ?case by (auto split: if_splits)
qed

lemma Cut_after_subset: "set (fst (snd (Cut s sep))) \<subseteq> set s"
  by (auto simp: Cut_def split: option.splits dest: in_set_dropD)

lemma Cut_before_subset: "set (fst (Cut s sep)) \<subseteq> set s"
  by (auto simp: Cut_def split: option.splits dest: in_set_takeD)

lemma Cut_before_char: "c \<notin> set (fst (Cut s [c]))"
proof (induction s)
  case Nil
  show ?case by (simp add: Cut_def)
next
  case (Cons x xs)
  then show ?case
    by (auto simp: Cut_def split: option.splits if_splits)
qed

lemma shouldEscape_path:
  "shouldEscape c encodePath =
     (\<not> (isLower c \<or> isUpper c \<or> isDigit c) \<and> c \<notin> set ''-_.~''
      \<and> (c \<in> set ''$&+,/:;=?@'' \<longrightarrow> c = CHR ''?''))"
  by (simp add: shouldEscape_def)

lemma shouldEscape_fragment:
  "shouldEscape c encodeFragment =
     (\<not> (isLower c \<or> isUpper c \<or> isDigit c) \<and> c \<notin> set ''-_.~''
      \<and> c \<notin> set ''$&+,/:;=?@'' \<and> c \<notin> set ''!()*'')"
  by (simp add: shouldEscape_def)

lemma ctl_not_listed:
  assumes "byte c < 32 \<or> byte c = 127"
  shows "\<not> (isLower c \<or> isUpper c \<or> isDigit c)" and "c \<notin> set ''-_.~''"
    and "c \<notin> set ''$&+,/:;=?@''" and "c \<notin> set ''!$&()*+,;=:@[]%''" and "c \<noteq> CHR 0x27"
  using assms by (auto simp: byte_def isLower_def isUpper_def isDigit_def)

lemma shouldEscape_ctl:
  "byte c < 32 \<or> byte c = 127 \<Longrightarrow> shouldEscape c encodePath"
  using ctl_not_listed [of c] by (simp only: shouldEscape_path) blast

lemma shouldEscape_marks:
  "shouldEscape CHR ''#'' encodePath" "shouldEscape CHR ''?'' encodePath"
  "shouldEscape CHR ''%'' encodePath" "shouldEscape CHR ''%'' encodeFragment"
  by code_simp+

lemma not_shouldEscape_path:
  "\<not> shouldEscape c encodePath \<Longrightarrow> plain c \<and> c \<noteq> CHR ''%''"
proof -
  assume n: "\<not> shouldEscape c encodePath"
  have "\<not> (byte c < 32 \<or> byte c = 127)"
    using n shouldEscape_ctl by blast
  moreover have "c \<noteq> CHR ''#'' \<and> c \<noteq> CHR ''?'' \<and> c \<noteq> CHR ''%''"
    using n shouldEscape_marks by blast
  ultimately show ?thesis
    by (simp add: plain_def not_less)
qed

lemma not_shouldEscape_fragment: "\<not> shouldEscape c encodeFragment \<Longrightarrow> c \<noteq> CHR ''%''"
  using shouldEscape_marks by blast

lemma upperhex_good: "ishex (upperhex n) \<and> plain (upperhex n)"
proof -
  have "list_all (\<lambda>d. ishex d \<and> plain d) ''0123456789ABCDEF''"
    by (simp add: ishex_def plain_def isDigit_def byte_def)
  moreover have "n mod 16 < length ''0123456789ABCDEF''" by simp
  ultimately show ?thesis
    unfolding upperhex_def list_all_length by blast
qed

lemma unescape_escape_byte:
  assumes "mode = encodePath \<or> mode = encodeFragment"
    and "unescape t mode = Inr x"
  shows "\<exists>y. unescape (escape_byte mode c @ t) mode = Inr y"
proof (cases "shouldEscape c mode")
  case True
  with assms upperhex_good show ?thesis
    by (auto simp: escape_byte_def)
next
  case False
  with assms have "c \<noteq> CHR ''%''"
    using not_shouldEscape_path not_shouldEscape_fragment by blast
  with False assms show ?thesis
    by (auto simp: escape_byte_def)
qed

lemma unescape_escape:
  assumes "mode = encodePath \<or> mode = encodeFragment"
  shows "\<exists>y. unescape (escape s mode) mode = Inr y"
proof (induction s)
  case Nil
  show ?case by (simp add: escape_def)
next
  case (Cons c s)
  then obtain x where "unescape (escape s mode) mode = Inr x" by blast
  from unescape_escape_byte [OF assms this, of c] show ?case
    by (simp add: escape_def)
qed

lemma escape_path_plain: "list_all plain (escape s encodePath)"
proof (induction s)
  case Nil
  show ?case by (simp add: escape_def)
next
  case (Cons c s)
  have "list_all plain (escape_byte encodePath c)"
    using upperhex_good not_shouldEscape_path [of c]
    by (auto simp: escape_byte_def plain_def byte_def)
  with Cons show ?case by (simp add: escape_def)
qed

lemma validEncoded_path_plain: "validEncoded s encodePath \<Longrightarrow> list_all plain s"
proof -
  have "plain c" if "c \<in> set ''!$&()*+,;=:@[]%'' \<or> c = CHR 0x27 \<or> \<not> shouldEscape c encodePath" for c
    using that not_shouldEscape_path [of c] by (auto simp: plain_def byte_def)
  then show "validEncoded s encodePath \<Longrightarrow> list_all plain s"
    unfolding validEncoded_def list_all_iff by blast
qed

lemma EscapedPath_safe: "pathSafe (EscapedPath w)"
proof -
  have star: "pathSafe ''*''"
    by (simp add: pathSafe_def plain_def byte_def)
  show ?thesis
    unfolding EscapedPath_def
    using star validEncoded_path_plain [of "RawPath w"] escape_path_plain [of "Path w"]
      unescape_escape [of encodePath "Path w"]
    by (auto simp: pathSafe_def)
qed

lemma EscapedFragment_ok: "\<exists>x. unescape (EscapedFragment w) encodeFragment = Inr x"
  unfolding EscapedFragment_def
  using unescape_escape [of encodeFragment "Fragment w"] by auto

lemma getScheme_loop_rest:
  "getScheme_loop raw acc cs = Inr (sch, rest) \<Longrightarrow> set rest \<subseteq> set raw \<union> set cs"
proof (induction cs arbitrary: acc)
  case Nil
  then show ?case by auto
next
  case (Cons c cs)
  then show ?case by (auto split: if_splits)
qed

lemma getScheme_rest: "getScheme s = Inr (sch, rest) \<Longrightarrow> set rest \<subseteq> set s"
  using getScheme_loop_rest [of s "[]" s sch rest] by (simp add: getScheme_def)

lemma ToLower_Nil: "ToLower s = [] \<longleftrightarrow> s = []"
  by (simp add: ToLower_def)

lemma splitQuery_fields:
  "splitQuery u0 rest0 = (u1, rest) \<Longrightarrow>
     set (RawQuery u1) \<subseteq> set (RawQuery u0) \<union> set rest0
     \<and> Scheme u1 = Scheme u0 \<and> Opaque u1 = Opaque u0"
  using Cut_after_subset [of rest0 "''?''"]
  by (auto simp: splitQuery_def split: if_splits prod.splits)

lemma splitAuthority_fields:
  "splitAuthority u rest = Inr (u', rest') \<Longrightarrow>
     RawQuery u' = RawQuery u \<and> Scheme u' = Scheme u \<and> Opaque u' = Opaque u"
  by (auto simp: splitAuthority_def split: if_splits prod.splits sum.splits option.splits)

lemma setPath_fields:
  "setPath u p = Inr u' \<Longrightarrow>
     RawQuery u' = RawQuery u \<and> Scheme u' = Scheme u \<and> Opaque u' = Opaque u
     \<and> Host u' = Host u \<and> User u' = User u \<and> ForceQuery u' = ForceQuery u
     \<and> Fragment u' = Fragment u \<and> RawFragment u' = RawFragment u \<and> OmitHost u' = OmitHost u"
  by (auto simp: setPath_def split: sum.splits)

lemma setFragment_fields:
  "setFragment u f = Inr u' \<Longrightarrow>
     RawQuery u' = RawQuery u \<and> Scheme u' = Scheme u \<and> Opaque u' = Opaque u
     \<and> Host u' = Host u \<and> User u' = User u"
  by (auto simp: setFragment_def split: sum.splits)

lemma parse_fields:
  assumes "parse s = Inr u"
  shows "set (RawQuery u) \<subseteq> set s \<and> \<not> stringContainsCTLByte s \<and> (Scheme u = [] \<longrightarrow> Opaque u = [])"
proof -
  have ctl: "\<not> stringContainsCTLByte s"
    using assms by (auto simp: parse_def split: if_splits)
  show ?thesis
  proof (cases "s = ''*''")
    case True
    with assms ctl show ?thesis by (auto simp: parse_def emptyURL_def split: if_splits)
  next
    case False
    with assms ctl obtain sch rest0 where g: "getScheme s = Inr (sch, rest0)"
      by (auto simp: parse_def split: sum.splits)
    obtain u1 rest where q: "splitQuery (emptyURL\<lparr>Scheme := ToLower sch\<rparr>) rest0 = (u1, rest)"
      by (cases "splitQuery (emptyURL\<lparr>Scheme := ToLower sch\<rparr>) rest0")
    from splitQuery_fields [OF q] getScheme_rest [OF g]
    have f1: "set (RawQuery u1) \<subseteq> set s" "Scheme u1 = ToLower sch" "Opaque u1 = []"
      by (auto simp: emptyURL_def)
    from assms ctl False g q
    consider "u = u1\<lparr>Opaque := rest\<rparr>" "Scheme u1 \<noteq> []"
      | u' rest' where "splitAuthority u1 rest = Inr (u', rest')" "setPath u' rest' = Inr u"
      by (auto simp: parse_def split: if_splits sum.splits)
    then show ?thesis
    proof cases
      case 1
      with f1 ctl show ?thesis by simp
    next
      case 2
      from splitAuthority_fields [OF 2(1)] setPath_fields [OF 2(2)] f1 ctl
      show ?thesis by simp
    qed
  qed
qed

lemma no_ctl_subset:
  "\<not> stringContainsCTLByte s \<Longrightarrow> set q \<subseteq> set s \<Longrightarrow> \<not> stringContainsCTLByte q"
  by (auto simp: stringContainsCTLByte_def list_ex_iff)

lemma url_Parse_fields:
  assumes "url_Parse r = Inr u"
  shows "queryOK (RawQuery u) \<and> (Scheme u = [] \<longrightarrow> Opaque u = [])"
proof -
  obtain s frag found where c: "Cut r ''#'' = (s, frag, found)"
    by (cases "Cut r ''#''") auto
  have nohash: "CHR ''#'' \<notin> set s"
    using Cut_before_char [of "CHR ''#''" r] c by simp
  from assms c obtain url where p: "parse s = Inr url"
    and u: "u = url \<or> setFragment url frag = Inr u"
    by (auto simp: url_Parse_def split: sum.splits if_splits)
  from parse_fields [OF p] nohash
  have "queryOK (RawQuery url) \<and> (Scheme url = [] \<longrightarrow> Opaque url = [])"
    using no_ctl_subset [of s "RawQuery url"] by (auto simp: queryOK_def)
  with u setFragment_fields [of url frag u] show ?thesis by auto
qed

lemma plain_not_ctl: "list_all plain s \<Longrightarrow> \<not> stringContainsCTLByte s"
proof -
  have "\<not> (byte b < 32 \<or> byte b = 127)" if "plain b" for b
    using that by (simp add: plain_def not_less)
  then show "list_all plain s \<Longrightarrow> \<not> stringContainsCTLByte s"
    unfolding stringContainsCTLByte_def list_ex_iff list_all_iff by blast
qed

lemma plain_no_marks: "list_all plain s \<Longrightarrow> CHR ''?'' \<notin> set s \<and> CHR ''#'' \<notin> set s"
  by (auto simp: list_all_iff plain_def)

lemma ctl_append:
  "stringContainsCTLByte (a @ b) = (stringContainsCTLByte a \<or> stringContainsCTLByte b)"
  by (auto simp: stringContainsCTLByte_def list_ex_iff)

lemma getScheme_http: "getScheme (''http:'' @ t) = Inr (''http'', t)"
  by (simp add: getScheme_def isLower_def isUpper_def isDigit_def byte_def)

lemma parseAuthority_a_com: "parseAuthority ''a.com'' = Inr (None, ''a.com'')"
  by code_simp

lemma ToLower_http: "ToLower ''http'' = ''http''"
  by code_simp

lemma splitQuery_shaped:
  assumes "CHR ''?'' \<notin> set B" and "Q = [] \<or> (\<exists>q. Q = CHR ''?'' # q)"
  shows "\<exists>u1. splitQuery u0 (B @ Q) = (u1, B) \<and> Scheme u1 = Scheme u0"
proof (cases "Q = []")
  case True
  have "\<not> HasSuffix B ''?''"
    using assms(1) by (auto simp: HasSuffix_def suffix_def)
  with True assms(1) show ?thesis
    by (simp add: splitQuery_def Cut_char_notin)
next
  case False
  with assms(2) obtain q where Q: "Q = CHR ''?'' # q" by blast
  show ?thesis
  proof (cases "HasSuffix (B @ Q) ''?'' \<and> Count (B @ Q) ''?'' = 1")
    case True
    then have "count_list q CHR ''?'' = 0"
      using assms(1) by (simp add: Q Count_char)
    then have nq: "CHR ''?'' \<notin> set q" by (simp add: count_list_0_iff)
    have "q = []"
    proof (rule ccontr)
      assume "q \<noteq> []"
      then have "last (B @ Q) = last q" by (simp add: Q)
      moreover from True have "last (B @ Q) = CHR ''?''"
        by (auto simp: HasSuffix_def suffix_def)
      ultimately show False using nq \<open>q \<noteq> []\<close> last_in_set by fastforce
    qed
    then have bl: "butlast (B @ Q) = B" by (simp add: Q butlast_append)
    from True have hs: "HasSuffix (B @ Q) ''?''" and cnt: "Count (B @ Q) ''?'' = 1"
      by simp_all
    show ?thesis
      unfolding splitQuery_def using hs cnt bl by simp
  next
    case False
    have "Cut (B @ Q) ''?'' = (B, q, True)"
      unfolding Q using assms(1) by (rule Cut_char_first)
    then show ?thesis
      unfolding splitQuery_def by (simp only: False if_False) simp
  qed
qed

lemma splitAuthority_shaped:
  assumes "Scheme u1 \<noteq> []" and "P = [] \<or> hd P = CHR ''/''"
  shows "splitAuthority u1 (''//a.com'' @ P) = Inr (u1\<lparr>User := None, Host := ''a.com''\<rparr>, P)"
proof (cases P)
  case Nil
  have "Index ''a.com'' ''/'' = None" by code_simp
  with Nil assms(1) show ?thesis
    by (simp add: splitAuthority_def HasPrefix_def parseAuthority_a_com)
next
  case (Cons c P')
  with assms(2) have P: "P = CHR ''/'' # P'" by simp
  have "Index (''a.com'' @ CHR ''/'' # P') ''/'' = Some (length ''a.com'')"
    by (rule Index_char_first) simp
  then have "Index (''a.com/'' @ P') ''/'' = Some 5" by simp
  with assms(1) show ?thesis
    by (simp add: splitAuthority_def HasPrefix_def parseAuthority_a_com P)
qed

lemma parse_shaped:
  assumes "P = [] \<or> hd P = CHR ''/''" and "pathSafe P"
    and "Q = [] \<or> (\<exists>q. Q = CHR ''?'' # q \<and> queryOK q)"
  shows "\<exists>v. parse (''http://a.com'' @ P @ Q) = Inr v \<and> Scheme v = ''http'' \<and> Host v = ''a.com''"
proof -
  let ?S = "''http://a.com'' @ P @ Q"
  let ?B = "''//a.com'' @ P"
  from assms(2) have plainP: "list_all plain P"
    and unesc: "\<exists>x. unescape P encodePath = Inr x"
    by (simp_all add: pathSafe_def)
  have ctlQ: "\<not> stringContainsCTLByte Q"
    using assms(3) by (auto simp: queryOK_def stringContainsCTLByte_def byte_def)
  have ctl0: "\<not> stringContainsCTLByte ''http://a.com''" by code_simp
  have ctl: "\<not> stringContainsCTLByte ?S"
    using ctl0 plain_not_ctl [OF plainP] ctlQ by (simp only: ctl_append) simp
  have star: "?S \<noteq> ''*''" by simp
  have g: "getScheme ?S = Inr (''http'', ?B @ Q)"
    using getScheme_http [of "?B @ Q"] by simp
  have "CHR ''?'' \<notin> set ?B" using plain_no_marks [OF plainP] by simp
  moreover have "Q = [] \<or> (\<exists>q. Q = CHR ''?'' # q)" using assms(3) by blast
  ultimately obtain u1 where
    q: "splitQuery (emptyURL\<lparr>Scheme := ''http''\<rparr>) (?B @ Q) = (u1, ?B)" and
    s1: "Scheme u1 = ''http''"
    using splitQuery_shaped [of ?B Q "emptyURL\<lparr>Scheme := ''http''\<rparr>"] by auto
  have a: "splitAuthority u1 ?B = Inr (u1\<lparr>User := None, Host := ''a.com''\<rparr>, P)"
    using splitAuthority_shaped [of u1 P] s1 assms(1) by simp
  from unesc obtain x where x: "unescape P encodePath = Inr x" by blast
  have pre: "HasPrefix ?B ''/''" by (simp add: HasPrefix_def)
  have "parse ?S = setPath (u1\<lparr>User := None, Host := ''a.com''\<rparr>) P"
    unfolding parse_def using ctl star g q a pre s1
    by (simp add: ToLower_http del: append.simps)
  then show ?thesis
    using x s1 by (simp add: setPath_def)
qed

lemma url_Parse_shaped:
  assumes "P = [] \<or> hd P = CHR ''/''" and "pathSafe P"
    and "Q = [] \<or> (\<exists>q. Q = CHR ''?'' # q \<and> queryOK q)"
    and "F = [] \<or> (\<exists>f x. F = CHR ''#'' # f \<and> unescape f encodeFragment = Inr x)"
  shows "\<exists>v. url_Parse (''http://a.com'' @ P @ Q @ F) = Inr v
              \<and> Scheme v = ''http'' \<and> Host v = ''a.com''"
proof -
  let ?S = "''http://a.com'' @ P @ Q"
  from parse_shaped [OF assms(1,2,3)] obtain v where
    v: "parse ?S = Inr v" "Scheme v = ''http''" "Host v = ''a.com''" by blast
  have nohash: "CHR ''#'' \<notin> set ?S"
    using assms(2,3) plain_no_marks [of P] by (auto simp: pathSafe_def queryOK_def)
  show ?thesis
  proof (cases "F = []")
    case True
    have "Cut ?S ''#'' = (?S, [], False)" using nohash by (rule Cut_char_notin)
    with v True show ?thesis by (simp add: url_Parse_def del: append.simps)
  next
    case False
    with assms(4) obtain f x where F: "F = CHR ''#'' # f" and x: "unescape f encodeFragment = Inr x"
      by blast
    have "Cut (?S @ CHR ''#'' # f) ''#'' = (?S, f, True)" using nohash by (rule Cut_char_first)
    then have c: "Cut (''http://a.com'' @ P @ Q @ F) ''#'' = (?S, f, True)" by (simp add: F)
    show ?thesis
      unfolding url_Parse_def c using v x by (auto simp: setFragment_def)
  qed
qed

lemma parse_a_com_x: "url_Parse ''http://a.com/x/'' = Inr url_a_com_x"
  by code_simp

lemma escape_host_a_com: "escape ''a.com'' encodeHost = ''a.com''"
  by code_simp

lemma setPath_ignoring_error_fields:
  "RawQuery (setPath_ignoring_error u p) = RawQuery u
   \<and> Scheme (setPath_ignoring_error u p) = Scheme u
   \<and> Opaque (setPath_ignoring_error u p) = Opaque u
   \<and> Host (setPath_ignoring_error u p) = Host u
   \<and> User (setPath_ignoring_error u p) = User u"
  by (simp add: setPath_ignoring_error_def setPath_def split: sum.splits)

lemma ResolveReference_fields:
  assumes "Scheme u = []" and "Host u = []" and "User u = None" and "Opaque u = []"
    and "queryOK (RawQuery u)"
  shows "Scheme (ResolveReference url_a_com_x u) = ''http''
         \<and> Host (ResolveReference url_a_com_x u) = ''a.com''
         \<and> User (ResolveReference url_a_com_x u) = None
         \<and> Opaque (ResolveReference url_a_com_x u) = []
         \<and> queryOK (RawQuery (ResolveReference url_a_com_x u))"
proof -
  have e: "queryOK []" by (simp add: queryOK_def stringContainsCTLByte_def)
  show ?thesis
    unfolding ResolveReference_def Let_def
    using assms e
    by (simp add: setPath_ignoring_error_fields url_a_com_x_def emptyURL_def)
qed

lemma String_shaped:
  assumes "Scheme w = ''http''" and "Host w = ''a.com''" and "User w = None" and "Opaque w = []"
  shows "url_String w =
           ''http://a.com''
           @ ((if EscapedPath w \<noteq> [] \<and> hd (EscapedPath w) \<noteq> CHR ''/'' then ''/'' else [])
              @ EscapedPath w)
           @ (if ForceQuery w \<or> RawQuery w \<noteq> [] then CHR ''?'' # RawQuery w else [])
           @ (if Fragment w \<noteq> [] then CHR ''#'' # EscapedFragment w else [])"
  unfolding url_String_def String_authority_def String_path_def Let_def
  using assms by (simp add: escape_host_a_com)

lemma pathSafe_slash: "pathSafe p \<Longrightarrow> pathSafe (CHR ''/'' # p)"
  by (auto simp: pathSafe_def plain_def byte_def)

subsection \<open>The records sent to the sink and the files of url-scan.go\<close>

lemma matchURL_valid: "matchURL s = Some (m, rest) \<Longrightarrow> isValidURL m"
  by (auto simp: matchURL_def isValidURL_def HasPrefix_def split: if_splits)

lemma FindAllString_valid: "list_all isValidURL (FindAllString body)"
proof (induction body rule: FindAllString.induct)
  case 1
  show ?case by simp
next
  case (2 c cs)
  show ?case
  proof (cases "matchURL (c # cs)")
    case None
    with 2 show ?thesis by simp
  next
    case (Some mr)
    obtain m rest where mr: "mr = (m, rest)" by (cases mr)
    with Some 2 matchURL_valid [of "c # cs" m rest] show ?thesis by simp
  qed
qed

lemma emitScriptURL_formatted: "formatted c \<Longrightarrow> formatted (emitScriptURL c u)"
  by (simp add: emitScriptURL_def formatted_def HasPrefix_def)

lemma foldl_emitScriptURL_formatted: "formatted c \<Longrightarrow> formatted (foldl emitScriptURL c us)"
  by (induction us arbitrary: c) (simp_all add: emitScriptURL_formatted)

lemma fetchURL_formatted: "fetchURL tr c u = Returns (r, c') \<Longrightarrow> formatted c' = formatted c"
  using fetchURL_channels [of tr c u r c'] by (simp add: formatted_def)

lemma extractURLsFromScript_formatted:
  "extractURLsFromScript tr c u = Returns c' \<Longrightarrow> formatted c \<Longrightarrow> formatted c'"
  unfolding extractURLsFromScript_def
  by (auto split: outcome.splits sum.splits if_splits dest!: fetchURL_formatted
        intro: foldl_emitScriptURL_formatted)

lemma routeURL_formatted: "routeURL c u = Returns c' \<Longrightarrow> formatted c \<Longrightarrow> formatted c'"
  by (auto simp: routeURL_def formatted_def HasPrefix_def split: if_splits)

lemma processURL_loop_formatted:
  "processURL_loop tr c us = Returns c' \<Longrightarrow> formatted c \<Longrightarrow> formatted c'"
proof (induction us arbitrary: c)
  case Nil
  then show ?case by simp
next
  case (Cons u us)
  from Cons.prems(1) obtain c1 c2 where
    r: "routeURL c u = Returns c1" and
    e: "(if isCodeFile u then extractURLsFromScript tr c1 u else Returns c1) = Returns c2" and
    l: "processURL_loop tr c2 us = Returns c'"
    by (auto split: outcome.splits)
  have "formatted c1" using routeURL_formatted [OF r Cons.prems(2)] .
  then have "formatted c2"
    using e extractURLsFromScript_formatted [of tr c1 u c2] by (auto split: if_splits)
  then show ?case using Cons.IH [OF l] by simp
qed

lemma processURL_formatted:
  assumes "processURL tr hp c u = Returns c'" and "formatted c"
  shows "formatted c'"
proof (cases "visited c u")
  case True
  with assms show ?thesis by (simp add: processURL_def)
next
  case False
  define c0 where "c0 = c\<lparr>Visited := (Visited c)(u \<mapsto> True), Stdout := Stdout c @ [''Crawling: '' @ u]\<rparr>"
  obtain r c1 where f: "fetchURL tr c0 u = Returns (r, c1)"
    using fetchURL_returns by blast
  have "formatted c0" using assms(2) by (simp add: formatted_def c0_def)
  then have f1: "formatted c1" using fetchURL_formatted [OF f] by simp
  show ?thesis
    using assms(1) False f f1 unfolding processURL_def c0_def
    by (auto dest: processURL_loop_formatted split: sum.splits if_splits option.splits)
qed

lemma crawl_run_formatted:
  "crawl_run tr hp c c' \<Longrightarrow> formatted c \<Longrightarrow> formatted c'"
proof (induction rule: crawl_run.induct)
  case (run_refl c)
  then show ?case by simp
next
  case (run_step c c1 c2)
  then have a1: "formatted c1" by simp
  from run_step.hyps(2) obtain url q c1' where
    pr: "processURL tr hp (c1\<lparr>Queue := q\<rparr>) url = Returns c1'" and
    c2: "c2 = c1'\<lparr>WG := WG c1' - 1\<rparr>"
    by (rule worker_turn_processURL)
  have "formatted (c1\<lparr>Queue := q\<rparr>)"
    using a1 by (simp add: formatted_def)
  from processURL_formatted [OF pr this] c2 show ?case
    by (simp add: formatted_def)
qed

lemma Crawl_records_formatted:
  "crawl_run tr hp (Crawl_start (NewCrawler inscope outscope) startURL) c \<Longrightarrow> formatted c"
  by (erule crawl_run_formatted) (simp add: formatted_def Crawl_start_def NewCrawler_def)

lemma writeToFiles_example:
  "map_option (\<lambda>fs. (fs ''output.txt_in_scope.txt'', fs ''output.txt_out_scope.txt''))
     (returned (writeToFiles anyName diskOK Map.empty ''output.txt_in_scope.txt''
        ''output.txt_out_scope.txt'' [''In-scope: http://a.com/b'']
        [''Out-Of-Scope: http://evil.com/x'']))
   = Some (Some (''--IN SCOPE URLS:---'' @ [CHR 0x0A] @ ''In-scope: http://a.com/b'' @ [CHR 0x0A]),
           Some (''--OUT OF SCOPE URLS:---'' @ [CHR 0x0A] @ ''Out-Of-Scope: http://evil.com/x''
                 @ [CHR 0x0A]))"
proof -
  have h1: "anyName ''output.txt_in_scope.txt''" and h2: "anyName ''output.txt_out_scope.txt''"
    by (simp_all add: anyName_def)
  have h3: "complete_writes diskOK" by (simp add: complete_writes_def diskOK_def)
  have ne: "''output.txt_in_scope.txt'' \<noteq> ''output.txt_out_scope.txt''" by simp
  from writeToFiles_output [where cr = anyName and wr = diskOK and fs = Map.empty
            and inName = "''output.txt_in_scope.txt''" and outName = "''output.txt_out_scope.txt''"
            and ins = "[''In-scope: http://a.com/b'']"
            and outs = "[''Out-Of-Scope: http://evil.com/x'']", OF h1 h2 ne h3]
  obtain fs' where
    r: "writeToFiles anyName diskOK Map.empty ''output.txt_in_scope.txt''
          ''output.txt_out_scope.txt'' [''In-scope: http://a.com/b'']
          [''Out-Of-Scope: http://evil.com/x''] = Returns fs'" and
    i: "fs' ''output.txt_in_scope.txt''
          = Some (''--IN SCOPE URLS:---'' @ [CHR 0x0A] @ as_lines [''In-scope: http://a.com/b''])" and
    o: "fs' ''output.txt_out_scope.txt''
          = Some (''--OUT OF SCOPE URLS:---'' @ [CHR 0x0A]
                  @ as_lines [''Out-Of-Scope: http://evil.com/x''])"
    by blast
  show ?thesis
    using i o by (simp add: r returned_def as_lines_def)
qed

subsection \<open>When the loop over the links returns\<close>

lemma extractURLsFromScript_returns: "\<exists>c'. extractURLsFromScript tr c u = Returns c'"
proof -
  obtain r c1 where "fetchURL tr c u = Returns (r, c1)"
    using fetchURL_returns by blast
  then show ?thesis
    by (simp add: extractURLsFromScript_def split: sum.splits)
qed

lemma script_step_returns:
  "\<exists>c2. (if isCodeFile u then extractURLsFromScript tr c1 u else Returns c1) = Returns c2
         \<and> keeps_queue c1 c2"
proof (cases "isCodeFile u")
  case True
  obtain c2 where e: "extractURLsFromScript tr c1 u = Returns c2"
    using extractURLsFromScript_returns by blast
  with True extractURLsFromScript_keeps [OF e] show ?thesis by simp
next
  case False
  then show ?thesis by (simp add: keeps_queue_refl)
qed

lemma queue_fits_keeps:
  "keeps d c \<Longrightarrow> Queue c = Queue d \<Longrightarrow> queue_fits c urls = queue_fits d urls"
  by (simp add: queue_fits_def isInScope_keeps)

lemma processURL_loop_outcome:
  "(queue_fits d urls \<longrightarrow> (\<exists>d'. processURL_loop tr d urls = Returns d'))
   \<and> (\<not> queue_fits d urls \<longrightarrow> processURL_loop tr d urls = Blocks)"
proof (induction urls arbitrary: d)
  case Nil
  show ?case by (simp add: queue_fits_def)
next
  case (Cons u us)
  show ?case
  proof (cases "isValidURL u \<and> isInScope d u")
    case False
    have "\<exists>c1. routeURL d u = Returns c1 \<and> Queue c1 = Queue d"
      using False by (cases "isValidURL u"; cases "isInScope d u"; simp add: routeURL_def)
    then obtain c1 where r: "routeURL d u = Returns c1" and q1: "Queue c1 = Queue d"
      by blast
    obtain c2 where e: "(if isCodeFile u then extractURLsFromScript tr c1 u else Returns c1) = Returns c2"
      and k12: "keeps_queue c1 c2"
      using script_step_returns by blast
    have k: "keeps d c2" and q2: "Queue c2 = Queue d"
      using routeURL_keeps [OF r] k12 q1 by (auto simp: keeps_queue_def intro: keeps_trans)
    have l: "processURL_loop tr d (u # us) = processURL_loop tr c2 us"
      using r e by simp
    have "filter (\<lambda>v. isValidURL v \<and> isInScope d v) (u # us)
          = filter (\<lambda>v. isValidURL v \<and> isInScope d v) us"
      using False by auto
    then have "queue_fits d (u # us) = queue_fits d us"
      unfolding queue_fits_def by simp
    then have "queue_fits d (u # us) = queue_fits c2 us"
      using queue_fits_keeps [OF k q2, of us] by simp
    with Cons.IH [of c2] l show ?thesis by simp
  next
    case True
    show ?thesis
    proof (cases "length (Queue d) \<ge> 100")
      case full: True
      have "routeURL d u = Blocks" using True full by (simp add: routeURL_def)
      moreover have "\<not> queue_fits d (u # us)" using True full by (simp add: queue_fits_def)
      ultimately show ?thesis by simp
    next
      case room: False
      have "\<exists>c1. routeURL d u = Returns c1 \<and> Queue c1 = Queue d @ [u]"
        using True room by (simp add: routeURL_def)
      then obtain c1 where r: "routeURL d u = Returns c1" and q1: "Queue c1 = Queue d @ [u]"
        by blast
      obtain c2 where e: "(if isCodeFile u then extractURLsFromScript tr c1 u else Returns c1) = Returns c2"
        and k12: "keeps_queue c1 c2"
        using script_step_returns by blast
      have k: "keeps d c2" and q2: "Queue c2 = Queue d @ [u]"
        using routeURL_keeps [OF r] k12 q1 by (auto simp: keeps_queue_def intro: keeps_trans)
      have l: "processURL_loop tr d (u # us) = processURL_loop tr c2 us"
        using r e by simp
      have "filter (\<lambda>v. isValidURL v \<and> isInScope d v) (u # us)
            = u # filter (\<lambda>v. isValidURL v \<and> isInScope d v) us"
        using True by simp
      then have "queue_fits d (u # us)
                 = (length (Queue d) + 1
                    + length (filter (\<lambda>v. isValidURL v \<and> isInScope d v) us) \<le> 100)"
        unfolding queue_fits_def by simp
      moreover have "queue_fits c2 us
                 = (filter (\<lambda>v. isValidURL v \<and> isInScope d v) us = []
                    \<or> length (Queue d) + 1
                    + length (filter (\<lambda>v. isValidURL v \<and> isInScope d v) us) \<le> 100)"
        unfolding queue_fits_def by (simp add: q2 isInScope_keeps [OF k])
      ultimately have "queue_fits d (u # us) = queue_fits c2 us"
        using room by auto
      with Cons.IH [of c2] l show ?thesis by simp
    qed
  qed
qed

section \<open>Claims\<close>

subsection \<open>C1: the scope classifier with a non-empty in-scope list\<close>

text \<open>
  C1, as the code has it. When the in-scope list is not empty, \<open>isInScope\<close> answers
  true exactly for the URLs that parse and whose host ends with an entry of the
  in-scope list. The out-of-scope list is not consulted for such a host: the first
  loop has already returned true.
\<close>

theorem isInScope_nonempty_inScope:
  "InScope c \<noteq> [] \<Longrightarrow>
   isInScope c u =
     (case url_Parse u of
        Inl err \<Rightarrow> False
      | Inr parsedURL \<Rightarrow> list_ex (\<lambda>scope. HasSuffix (Host parsedURL) scope) (InScope c))"
  by (simp add: isInScope_def split: sum.splits)

theorem isInScope_nonempty_inScope_witness:
  "InScope (NewCrawler [''a.com''] [''admin.a.com'']) \<noteq> []
   \<and> isInScope (NewCrawler [''a.com''] [''admin.a.com'']) ''http://www.a.com/x''
   \<and> \<not> isInScope (NewCrawler [''a.com''] [''admin.a.com'']) ''http://evil.com/x''"
proof -
  have p1: "url_Parse ''http://www.a.com/x''
            = Inr (emptyURL\<lparr>Scheme := ''http'', Host := ''www.a.com'', Path := ''/x''\<rparr>)"
    by code_simp
  have p2: "url_Parse ''http://evil.com/x''
            = Inr (emptyURL\<lparr>Scheme := ''http'', Host := ''evil.com'', Path := ''/x''\<rparr>)"
    by code_simp
  have ne: "InScope (NewCrawler [''a.com''] [''admin.a.com'']) \<noteq> []"
    by (simp add: NewCrawler_def)
  show ?thesis
    using isInScope_nonempty_inScope [OF ne, of "''http://www.a.com/x''"]
          isInScope_nonempty_inScope [OF ne, of "''http://evil.com/x''"]
    by (simp add: p1 p2 NewCrawler_def HasSuffix_def suffix_to_prefix emptyURL_def)
qed

text \<open>
  The claim as stated fails: with \<open>a.com\<close> in scope and \<open>admin.a.com\<close> out of scope,
  the host \<open>admin.a.com\<close> matches an entry of both lists, and the URL is in scope.
\<close>

theorem isInScope_veto_counterexample:
  "InScope (NewCrawler [''a.com''] [''admin.a.com'']) \<noteq> []
   \<and> url_Parse ''http://admin.a.com/''
       = Inr (emptyURL\<lparr>Scheme := ''http'', Host := ''admin.a.com'', Path := ''/''\<rparr>)
   \<and> isValidURL ''http://admin.a.com/''
   \<and> list_ex (\<lambda>scope. HasSuffix ''admin.a.com'' scope) (InScope (NewCrawler [''a.com''] [''admin.a.com'']))
   \<and> list_ex (\<lambda>scope. HasSuffix ''admin.a.com'' scope) (OutScope (NewCrawler [''a.com''] [''admin.a.com'']))
   \<and> isInScope (NewCrawler [''a.com''] [''admin.a.com'']) ''http://admin.a.com/''"
  by code_simp

subsection \<open>C2: a page URL is fetched at most once\<close>

text \<open>
  C2. However the statements of any number of invocations of \<open>processURL\<close>
  interleave, no URL is fetched twice and no two invocations reach the fetch with the
  same URL: the test of \<open>Visited\<close> and the marking happen while the mutex is held, and
  an invocation that finds its URL marked returns without fetching. And in every run
  of the program as it is written, with its one worker, no page is announced and
  fetched more than once.
\<close>

theorem processURL_fetches_once:
  "(reachable arg s \<longrightarrow>
      distinct (fetches s)
      \<and> (\<forall>i j. reached_fetch (pcs s i) \<and> reached_fetch (pcs s j) \<and> arg i = arg j \<longrightarrow> i = j))
   \<and> (crawl_run tr hp (Crawl_start (NewCrawler inscope outscope) startURL) c \<longrightarrow>
        (\<forall>u. count_list (Stdout c) (crawlingLine u) \<le> 1))"
proof (intro conjI impI allI)
  assume r: "reachable arg s"
  from reachable_inv [OF r] show "distinct (fetches s)" by (simp add: inv_def)
next
  fix i j
  assume r: "reachable arg s"
    and "reached_fetch (pcs s i) \<and> reached_fetch (pcs s j) \<and> arg i = arg j"
  then have "marked (pcs s i) \<and> marked (pcs s j) \<and> arg i = arg j"
    by (auto simp: reached_fetch_def marked_def)
  with reachable_inv [OF r] show "i = j" unfolding inv_def by blast
next
  fix u
  assume run: "crawl_run tr hp (Crawl_start (NewCrawler inscope outscope) startURL) c"
  have "announced_once (Crawl_start (NewCrawler inscope outscope) startURL)"
    by (simp add: announced_once_def Crawl_start_def NewCrawler_def)
  from crawl_run_announced_once [OF run this] have "distinct (Stdout c)"
    by (simp add: announced_once_def)
  then show "count_list (Stdout c) (crawlingLine u) \<le> 1" by (rule distinct_count_le_1)
qed

theorem processURL_fetches_once_witness:
  "reachable sameURL two_workers_done
   \<and> distinct (fetches two_workers_done)
   \<and> crawl_run netDown (fixedParser docLinks) (Crawl_start (NewCrawler [''a.com''] [[]]) ''http://a.com/'')
       crawl_a_com_failed
   \<and> count_list (Stdout crawl_a_com_failed) (crawlingLine ''http://a.com/'') \<le> 1"
proof -
  have run: "crawl_run netDown (fixedParser docLinks)
               (Crawl_start (NewCrawler [''a.com''] [[]]) ''http://a.com/'') crawl_a_com_failed"
    using run_step [OF run_refl turn_a_com_down] by (simp add: crawler_a_com_def)
  show ?thesis
    using processURL_fetches_once [of sameURL two_workers_done netDown "fixedParser docLinks"
            "[''a.com'']" "[[]]" "''http://a.com/''" crawl_a_com_failed]
          reachable_two_workers run
    by blast
qed

subsection \<open>C3: the queue and the visited set\<close>

text \<open>
  C3, as the code has it. The visited set is read when a URL is taken from the queue,
  not when it is put there: \<open>processURL\<close> on a visited URL returns at once and changes
  nothing. The loop over the links of a page sends every valid in-scope link on the
  queue, once for each time it occurs and whether or not it was visited, as long as
  the queue has room: when no link is to be queued, or the URLs pending and the links
  to queue are at most 100 together, the loop returns and the queue has grown by
  exactly these links, in order; in every other case a send finds 100 URLs pending
  and blocks, and the loop does not return.
\<close>

theorem enqueue_without_visited_check:
  "(visited c u \<longrightarrow> processURL tr hp c u = Returns c)
   \<and> (queue_fits d urls \<longrightarrow>
        (\<exists>d'. processURL_loop tr d urls = Returns d'
              \<and> Queue d' = Queue d @ filter (\<lambda>v. isValidURL v \<and> isInScope d v) urls))
   \<and> (\<not> queue_fits d urls \<longrightarrow> processURL_loop tr d urls = Blocks)"
  using processURL_visited [of c u tr hp] processURL_loop_outcome [of d urls tr]
    processURL_loop_Queue [of tr d urls]
  by blast

theorem enqueue_without_visited_check_witness:
  "visited crawl_a_com_failed ''http://a.com/''
   \<and> processURL netPage (fixedParser docLinks) crawl_a_com_failed ''http://a.com/''
       = Returns crawl_a_com_failed
   \<and> queue_fits crawler_a_com [''http://a.com/b'', ''http://a.com/b'']
   \<and> processURL_loop netPage crawler_a_com [''http://a.com/b'', ''http://a.com/b'']
       = Returns (crawler_a_com\<lparr>inScopeCh := [''In-scope: http://a.com/b'', ''In-scope: http://a.com/b''],
                    Queue := [''http://a.com/b'', ''http://a.com/b''], WG := 2\<rparr>)
   \<and> \<not> queue_fits crawler_a_com (replicate 101 ''http://a.com/b'')
   \<and> processURL_loop netPage crawler_a_com (replicate 101 ''http://a.com/b'') = Blocks"
proof -
  have v: "visited crawl_a_com_failed ''http://a.com/''"
    by (simp add: visited_def crawl_a_com_failed_def)
  have i: "isValidURL ''http://a.com/b'' \<and> isInScope crawler_a_com ''http://a.com/b''"
    using valid_a_com inScope_a_com_b [of crawler_a_com]
    by (simp add: crawler_a_com_def NewCrawler_def)
  have e: "Queue crawler_a_com = []" by (simp add: crawler_a_com_def NewCrawler_def)
  have f2: "queue_fits crawler_a_com [''http://a.com/b'', ''http://a.com/b'']"
    using i e by (simp add: queue_fits_def)
  have f101: "\<not> queue_fits crawler_a_com (replicate 101 ''http://a.com/b'')"
    using i e by (simp add: queue_fits_def filter_replicate)
  have l: "processURL_loop netPage crawler_a_com [''http://a.com/b'', ''http://a.com/b'']
           = Returns (crawler_a_com\<lparr>inScopeCh := [''In-scope: http://a.com/b'', ''In-scope: http://a.com/b''],
                        Queue := [''http://a.com/b'', ''http://a.com/b''], WG := 2\<rparr>)"
    by (simp add: routeURL_def valid_a_com not_code_a_com inScope_a_com_b crawler_a_com_def
          NewCrawler_def)
  show ?thesis
    using enqueue_without_visited_check [of crawl_a_com_failed "''http://a.com/''" netPage
            "fixedParser docLinks" crawler_a_com "[''http://a.com/b'', ''http://a.com/b'']"]
          enqueue_without_visited_check [of crawl_a_com_failed "''http://a.com/''" netPage
            "fixedParser docLinks" crawler_a_com "replicate 101 ''http://a.com/b''"]
          v f2 f101 l
    by blast
qed

text \<open>
  The claim as stated fails. The page \<open>http://a.com/\<close> links to itself and twice to
  \<open>http://a.com/b\<close>: after it is processed the queue holds the page itself, which is
  marked visited, and holds \<open>http://a.com/b\<close> twice.
\<close>

theorem enqueue_twice_counterexample:
  "processURL netPage (fixedParser docLinks) crawler_a_com ''http://a.com/'' = Returns crawl_a_com_linked
   \<and> Queue crawl_a_com_linked = [''http://a.com/'', ''http://a.com/b'', ''http://a.com/b'']
   \<and> visited crawl_a_com_linked ''http://a.com/''
   \<and> count_list (Queue crawl_a_com_linked) ''http://a.com/b'' = 2"
  using process_a_com_page by (simp add: crawl_a_com_linked_def visited_def)

subsection \<open>C7: at most two attempts\<close>


subsection \<open>C8: what fetchURL returns on failure\<close>

text \<open>
  C8, as the code has it. \<open>fetchURL\<close> returns what its last request returned: an error
  when the URL does not parse or the last request fails in transport, and the response
  with no error when the last request is answered, whatever the status. The callers
  test the status themselves.
\<close>

theorem fetchURL_error:
  "fetchURL tr c pageURL = Returns (r, c') \<Longrightarrow>
     (case url_Parse pageURL of
        Inl e \<Rightarrow> r = Inl (UrlError e) \<and> Requests c' = Requests c
      | Inr u \<Rightarrow>
          Requests c' \<noteq> Requests c
          \<and> r = tr (length (Requests c') - 1) (last (Requests c')))"
  by (auto simp: fetchURL_def http_NewRequest_def client_Do_def Let_def
         split: sum.splits if_splits)

theorem fetchURL_error_witness:
  "fetchURL net404 crawler_a_com ''http://a.com/''
     = Returns (Inr \<lparr>StatusCode = 404, Body = Inr []\<rparr>,
         crawler_a_com\<lparr>Requests := [firstRequest url_a_com, retryRequest url_a_com]\<rparr>)
   \<and> Inr \<lparr>StatusCode = 404, Body = Inr []\<rparr> = net404 1 (retryRequest url_a_com)"
proof -
  have f: "fetchURL net404 crawler_a_com ''http://a.com/''
     = Returns (Inr \<lparr>StatusCode = 404, Body = Inr []\<rparr>,
         crawler_a_com\<lparr>Requests := [firstRequest url_a_com, retryRequest url_a_com]\<rparr>)"
    by (simp add: fetch_a_com net404_def ok200_def crawler_a_com_def NewCrawler_def)
  show ?thesis
    using fetchURL_error [OF f] f by (simp add: parse_a_com)
qed

text \<open>
  The claim as stated fails: when both requests are answered with status 404,
  \<open>fetchURL\<close> returns the second response and no error.
\<close>

theorem fetchURL_nil_error_counterexample:
  "fetchURL net404 crawler_a_com ''http://a.com/''
     = Returns (Inr \<lparr>StatusCode = 404, Body = Inr []\<rparr>,
         crawler_a_com\<lparr>Requests := [firstRequest url_a_com, retryRequest url_a_com]\<rparr>)
   \<and> \<not> isl (Inr \<lparr>StatusCode = 404, Body = Inr []\<rparr> :: error + Response)
   \<and> StatusCode \<lparr>StatusCode = 404, Body = Inr []\<rparr> \<noteq> 200"
  by (simp add: fetch_a_com net404_def ok200_def crawler_a_com_def NewCrawler_def)

subsection \<open>C10: a page that cannot be fetched or parsed\<close>

text \<open>
  C10. When the fetch of an unvisited page URL ends in an error or in a status other
  than 200, or the body cannot be read by the HTML parser, \<open>processURL\<close> returns with
  no record sent on either channel and nothing sent on the queue, and the URL is
  marked visited. From then on, through any number of turns of the worker, the URL
  stays visited and the page is never announced and fetched again.
\<close>

theorem processURL_failed_fetch:
  assumes "\<not> visited c pageURL"
    and "fetchURL tr (c\<lparr>Visited := (Visited c)(pageURL \<mapsto> True),
                       Stdout := Stdout c @ [crawlingLine pageURL]\<rparr>) pageURL = Returns (r, c1)"
    and "page_unusable hp r"
  shows "processURL tr hp c pageURL = Returns c1
         \<and> inScopeCh c1 = inScopeCh c \<and> outScopeCh c1 = outScopeCh c
         \<and> Queue c1 = Queue c \<and> WG c1 = WG c
         \<and> visited c1 pageURL
         \<and> (\<forall>d. crawl_run tr hp (c1\<lparr>WG := WG c1 - 1\<rparr>) d \<longrightarrow>
               visited d pageURL
               \<and> count_list (Stdout d) (crawlingLine pageURL)
                 = count_list (Stdout c1) (crawlingLine pageURL))"
proof -
  let ?c0 = "c\<lparr>Visited := (Visited c)(pageURL \<mapsto> True), Stdout := Stdout c @ [crawlingLine pageURL]\<rparr>"
  have k: "keeps_queue ?c0 c1" using assms(2) by (rule fetchURL_keeps)
  have ch: "inScopeCh c1 = inScopeCh ?c0 \<and> outScopeCh c1 = outScopeCh ?c0 \<and> OutputCh c1 = OutputCh ?c0"
    using assms(2) by (rule fetchURL_channels)
  have p: "processURL tr hp c pageURL = Returns c1"
    using assms by (auto simp: processURL_def crawlingLine_def page_unusable_def split: sum.splits)
  have v: "visited c1 pageURL"
    using k by (simp add: keeps_queue_def keeps_def visited_def)
  have run: "visited d pageURL
               \<and> count_list (Stdout d) (crawlingLine pageURL)
                 = count_list (Stdout c1) (crawlingLine pageURL)"
    if "crawl_run tr hp (c1\<lparr>WG := WG c1 - 1\<rparr>) d" for d
    using crawl_run_keeps_visited [OF that, of pageURL] v by (simp add: visited_def)
  from k ch p v run show ?thesis
    by (simp add: keeps_queue_def)
qed

theorem processURL_failed_fetch_witness:
  "\<not> visited crawler_a_com ''http://a.com/''
   \<and> page_unusable (fixedParser docLinks) (Inl (TransportError ''connection refused''))
   \<and> processURL netDown (fixedParser docLinks) crawler_a_com ''http://a.com/''
       = Returns crawl_a_com_failed
   \<and> inScopeCh crawl_a_com_failed = inScopeCh crawler_a_com
   \<and> outScopeCh crawl_a_com_failed = outScopeCh crawler_a_com
   \<and> Queue crawl_a_com_failed = Queue crawler_a_com
   \<and> visited crawl_a_com_failed ''http://a.com/''"
proof -
  have h1: "\<not> visited crawler_a_com ''http://a.com/''"
    by (simp add: visited_def crawler_a_com_def NewCrawler_def)
  have h2: "fetchURL netDown (crawler_a_com\<lparr>Visited := (Visited crawler_a_com)(''http://a.com/'' \<mapsto> True),
              Stdout := Stdout crawler_a_com @ [crawlingLine ''http://a.com/'']\<rparr>) ''http://a.com/''
            = Returns (Inl (TransportError ''connection refused''), crawl_a_com_failed)"
    by (simp add: fetch_a_com netDown_def ok200_def crawler_a_com_def NewCrawler_def
          crawl_a_com_failed_def)
  have h3: "page_unusable (fixedParser docLinks) (Inl (TransportError ''connection refused''))"
    by (simp add: page_unusable_def)
  show ?thesis
    using processURL_failed_fetch [OF h1 h2 h3] h1 h3 by simp
qed

subsection \<open>C4: the empty -inscope flag\<close>

text \<open>
  C4, evaluated on the code. With \<open>-inscope ""\<close> the in-scope list that \<open>main\<close> builds
  is the one empty string, which is a suffix of every host: every URL that parses is
  in scope, whatever \<open>-outscope\<close> holds. The claim says that such a URL is out of
  scope when its host matches an out-of-scope suffix.
\<close>

theorem empty_inscope_flag_matches_every_host:
  "main urlFlag [] outscopeFlag = Returns c \<Longrightarrow> url_Parse u = Inr p \<Longrightarrow> isInScope c u"
  by (auto simp: main_def split_empty Crawl_start_def NewCrawler_def isInScope_def HasSuffix_def
        split: if_splits)

theorem empty_inscope_flag_matches_every_host_witness:
  "main ''http://a.com/'' [] ''evil.com''
     = Returns (Crawl_start (NewCrawler [[]] [''evil.com'']) ''http://a.com/'')
   \<and> url_Parse ''http://evil.com/x''
       = Inr (emptyURL\<lparr>Scheme := ''http'', Host := ''evil.com'', Path := ''/x''\<rparr>)
   \<and> list_ex (\<lambda>scope. HasSuffix ''evil.com'' scope) (OutScope (Crawl_start (NewCrawler [[]] [''evil.com'']) ''http://a.com/''))
   \<and> isInScope (Crawl_start (NewCrawler [[]] [''evil.com'']) ''http://a.com/'') ''http://evil.com/x''"
proof -
  have m: "main ''http://a.com/'' [] ''evil.com''
           = Returns (Crawl_start (NewCrawler [[]] [''evil.com'']) ''http://a.com/'')"
    by (simp add: main_def Split_def)
  have s: "list_ex (\<lambda>scope. HasSuffix ''evil.com'' scope)
             (OutScope (Crawl_start (NewCrawler [[]] [''evil.com'']) ''http://a.com/''))"
    by (simp add: Crawl_start_def NewCrawler_def HasSuffix_def)
  show ?thesis
    using empty_inscope_flag_matches_every_host [OF m parse_evil_x] m parse_evil_x s by simp
qed

subsection \<open>C5: the output files\<close>

text \<open>
  C5, evaluated on the code of src/unnamed/part\_000. Its \<open>writeToFile\<close> creates one
  file; when every write completes the file holds the in-scope header, the records
  that begin with \<open>In-scope\<close>, each followed by a newline, and the out-of-scope
  header, and nothing else: no out-of-scope record is ever written. (In url-scan.go
  \<open>writeToFiles\<close>, run until it returns, does what the claim says: lemma
  \<open>writeToFiles_output\<close>. That lemma is about the function alone; \<open>Crawl\<close> does not
  wait for it.)
\<close>

theorem writeToFile_part000_output:
  assumes "cr outputFile" and "complete_writes wr"
  shows "\<exists>fs'. writeToFile_part000 cr wr fs outputFile sent = Returns fs'
           \<and> fs' outputFile
               = Some (''--IN SCOPE URLS:---'' @ [CHR 0x0A]
                       @ as_lines (filter (\<lambda>u. HasPrefix u ''In-scope'') sent)
                       @ ''--OUT OF SCOPE URLS:---'' @ [CHR 0x0A])
           \<and> (\<forall>name. name \<noteq> outputFile \<longrightarrow> fs' name = fs name)"
proof -
  let ?fs2 = "fs(outputFile \<mapsto> ''--IN SCOPE URLS:---'' @ [CHR 0x0A])"
  have h: "WriteString wr outputFile (fs(outputFile \<mapsto> [])) (''--IN SCOPE URLS:---'' @ [CHR 0x0A]) = ?fs2"
    by (simp add: WriteString_complete [OF assms(2)] content_def)
  have i: "foldl (\<lambda>f u. if HasPrefix u ''In-scope'' then WriteString wr outputFile f (u @ [CHR 0x0A]) else f) ?fs2 sent
           = ?fs2(outputFile \<mapsto> (''--IN SCOPE URLS:---'' @ [CHR 0x0A])
                     @ as_lines (filter (\<lambda>u. HasPrefix u ''In-scope'') sent))"
    by (intro foldl_WriteString_filter) (simp_all add: assms(2))
  show ?thesis
    using assms(1) unfolding writeToFile_part000_def Let_def h i
    by (simp add: WriteString_complete [OF assms(2)] content_def)
qed

theorem writeToFile_part000_output_witness:
  "anyName ''output.txt'' \<and> complete_writes diskOK
   \<and> map_option (\<lambda>fs. fs ''output.txt'')
        (returned (writeToFile_part000 anyName diskOK Map.empty ''output.txt''
           [''In-scope: http://a.com/b'', ''Out-Of-Scope: http://evil.com/x'']))
       = Some (Some (''--IN SCOPE URLS:---'' @ [CHR 0x0A] @ ''In-scope: http://a.com/b'' @ [CHR 0x0A]
                     @ ''--OUT OF SCOPE URLS:---'' @ [CHR 0x0A]))
   \<and> map_option (\<lambda>fs. fs ''output.txt_out_scope.txt'')
        (returned (writeToFile_part000 anyName diskOK Map.empty ''output.txt''
           [''In-scope: http://a.com/b'', ''Out-Of-Scope: http://evil.com/x'']))
       = Some None"
proof -
  have h1: "anyName ''output.txt''" by (simp add: anyName_def)
  have h2: "complete_writes diskOK" by (simp add: complete_writes_def diskOK_def)
  show ?thesis
    using writeToFile_part000_output [where cr = anyName and wr = diskOK and fs = Map.empty
            and outputFile = "''output.txt''"
            and sent = "[''In-scope: http://a.com/b'', ''Out-Of-Scope: http://evil.com/x'']"] h1 h2
    by (auto simp: returned_def as_lines_def HasPrefix_def)
qed

subsection \<open>C6: URLs found in a fetched asset\<close>

text \<open>
  C6, evaluated on the code of url-scan.go. \<open>extractURLsFromScript\<close> classifies every
  URL found in the asset and sends it to the sink, and leaves the queue and the wait
  group as they were: a URL found in an asset is never crawled, in scope or not. (In
  src/unnamed/part\_000 the URLs found are appended to the links of the page and an
  in-scope one is sent on the queue.)
\<close>

theorem script_urls_not_enqueued:
  "extractURLsFromScript tr c scriptURL = Returns c' \<Longrightarrow> Queue c' = Queue c \<and> WG c' = WG c"
  using extractURLsFromScript_keeps [of tr c scriptURL c'] by (simp add: keeps_queue_def)

theorem script_urls_not_enqueued_witness:
  "extractURLsFromScript netScript
       (crawler_a_com\<lparr>Queue := [''http://a.com/app.js''], inScopeCh := [''In-scope: http://a.com/app.js'']\<rparr>)
       ''http://a.com/app.js''
     = Returns
         (crawler_a_com\<lparr>Queue := [''http://a.com/app.js''],
            inScopeCh := [''In-scope: http://a.com/app.js'', ''In-scope: http://a.com/next''],
            Requests := [firstRequest url_app_js]\<rparr>)
   \<and> Queue (crawler_a_com\<lparr>Queue := [''http://a.com/app.js''],
            inScopeCh := [''In-scope: http://a.com/app.js'', ''In-scope: http://a.com/next''],
            Requests := [firstRequest url_app_js]\<rparr>) = [''http://a.com/app.js'']
   \<and> processURL netScript (fixedParser docScript) crawler_a_com ''http://a.com/''
       = Returns crawl_a_com_script
   \<and> Queue crawl_a_com_script = [''http://a.com/app.js'']
   \<and> inScopeCh crawl_a_com_script = [''In-scope: http://a.com/app.js'', ''In-scope: http://a.com/next'']
   \<and> processURL_part000 netScript (fixedParser docScript) crawler_a_com ''http://a.com/''
       = Returns crawl_a_com_script_part000
   \<and> Queue crawl_a_com_script_part000
       = [''http://a.com/app.js'', ''http://a.com/next'', ''http://a.com/next'',
          ''http://a.com/next'', ''http://a.com/next'']"
proof -
  have e: "extractURLsFromScript netScript
       (crawler_a_com\<lparr>Queue := [''http://a.com/app.js''], inScopeCh := [''In-scope: http://a.com/app.js'']\<rparr>)
       ''http://a.com/app.js''
     = Returns
         (crawler_a_com\<lparr>Queue := [''http://a.com/app.js''],
            inScopeCh := [''In-scope: http://a.com/app.js'', ''In-scope: http://a.com/next''],
            Requests := [firstRequest url_app_js]\<rparr>)"
    by (subst script_app_js) (simp_all add: crawler_a_com_def NewCrawler_def)
  show ?thesis
    using script_urls_not_enqueued [OF e] e process_a_com_script process_a_com_script_part000
    by (simp add: crawl_a_com_script_def crawl_a_com_script_part000_def)
qed

subsection \<open>C9: resolving a relative reference against http://a.com/x/\<close>

text \<open>
  C9, as the code has it. For every reference that parses, has no scheme and names no
  authority (neither host nor user information), resolving it against
  \<open>http://a.com/x/\<close> with \<open>formatURL\<close> gives a string that parses to an absolute URL
  whose host is \<open>a.com\<close>.
\<close>

theorem formatURL_relative_path_host:
  assumes "url_Parse r = Inr u" and "\<not> IsAbs u" and "Host u = []" and "User u = None"
  shows "\<exists>v. url_Parse (formatURL ''http://a.com/x/'' r) = Inr v \<and> IsAbs v \<and> Host v = ''a.com''"
proof -
  let ?w = "ResolveReference url_a_com_x u"
  let ?p = "EscapedPath ?w"
  let ?P = "(if ?p \<noteq> [] \<and> hd ?p \<noteq> CHR ''/'' then ''/'' else []) @ ?p"
  let ?Q = "if ForceQuery ?w \<or> RawQuery ?w \<noteq> [] then CHR ''?'' # RawQuery ?w else []"
  let ?F = "if Fragment ?w \<noteq> [] then CHR ''#'' # EscapedFragment ?w else []"
  from assms(2) have s: "Scheme u = []" by (simp add: IsAbs_def)
  from url_Parse_fields [OF assms(1)] s have o: "Opaque u = []" and q: "queryOK (RawQuery u)"
    by simp_all
  from ResolveReference_fields [OF s assms(3,4) o q]
  have w: "Scheme ?w = ''http''" "Host ?w = ''a.com''" "User ?w = None" "Opaque ?w = []"
    and wq: "queryOK (RawQuery ?w)"
    by simp_all
  have f: "formatURL ''http://a.com/x/'' r = ''http://a.com'' @ ?P @ ?Q @ ?F"
    using assms(1,2) String_shaped [OF w]
    by (simp add: formatURL_def parse_a_com_x)
  have P1: "?P = [] \<or> hd ?P = CHR ''/''" by auto
  have P2: "pathSafe ?P"
    using EscapedPath_safe [of ?w] pathSafe_slash [of ?p] by auto
  have Q: "?Q = [] \<or> (\<exists>q. ?Q = CHR ''?'' # q \<and> queryOK q)"
    using wq by auto
  have F: "?F = [] \<or> (\<exists>f x. ?F = CHR ''#'' # f \<and> unescape f encodeFragment = Inr x)"
    using EscapedFragment_ok [of ?w] by auto
  from url_Parse_shaped [OF P1 P2 Q F] obtain v where
    "url_Parse (''http://a.com'' @ ?P @ ?Q @ ?F) = Inr v" "Scheme v = ''http''" "Host v = ''a.com''"
    by blast
  then show ?thesis
    unfolding f by (auto simp: IsAbs_def)
qed

theorem formatURL_relative_path_host_witness:
  "url_Parse ''../y?q=1#frag''
     = Inr (emptyURL\<lparr>Path := ''../y'', RawQuery := ''q=1'', Fragment := ''frag''\<rparr>)
   \<and> \<not> IsAbs (emptyURL\<lparr>Path := ''../y'', RawQuery := ''q=1'', Fragment := ''frag''\<rparr>)
   \<and> formatURL ''http://a.com/x/'' ''../y?q=1#frag'' = ''http://a.com/y?q=1#frag''
   \<and> url_Parse ''http://a.com/y?q=1#frag''
       = Inr (emptyURL\<lparr>Scheme := ''http'', Host := ''a.com'', Path := ''/y'', RawQuery := ''q=1'',
                Fragment := ''frag''\<rparr>)"
proof -
  have h1: "url_Parse ''../y?q=1#frag''
            = Inr (emptyURL\<lparr>Path := ''../y'', RawQuery := ''q=1'', Fragment := ''frag''\<rparr>)"
    by code_simp
  have h2: "\<not> IsAbs (emptyURL\<lparr>Path := ''../y'', RawQuery := ''q=1'', Fragment := ''frag''\<rparr>)"
    by code_simp
  have h3: "Host (emptyURL\<lparr>Path := ''../y'', RawQuery := ''q=1'', Fragment := ''frag''\<rparr>) = []"
    by code_simp
  have h4: "User (emptyURL\<lparr>Path := ''../y'', RawQuery := ''q=1'', Fragment := ''frag''\<rparr>) = None"
    by code_simp
  have f: "formatURL ''http://a.com/x/'' ''../y?q=1#frag'' = ''http://a.com/y?q=1#frag''"
    by code_simp
  have p: "url_Parse ''http://a.com/y?q=1#frag''
       = Inr (emptyURL\<lparr>Scheme := ''http'', Host := ''a.com'', Path := ''/y'', RawQuery := ''q=1'',
                Fragment := ''frag''\<rparr>)"
    by code_simp
  show ?thesis
    using formatURL_relative_path_host [OF h1 h2 h3 h4] h1 h2 f p by simp
qed

text \<open>
  The claim as stated fails for a relative reference that names an authority: the
  network-path reference \<open>//evil.com/p\<close> has no scheme, and it resolves to
  \<open>http://evil.com/p\<close>, whose host is \<open>evil.com\<close>.
\<close>

theorem formatURL_network_path_counterexample:
  "url_Parse ''//evil.com/p'' = Inr (emptyURL\<lparr>Host := ''evil.com'', Path := ''/p''\<rparr>)
   \<and> \<not> IsAbs (emptyURL\<lparr>Host := ''evil.com'', Path := ''/p''\<rparr>)
   \<and> formatURL ''http://a.com/x/'' ''//evil.com/p'' = ''http://evil.com/p''
   \<and> url_Parse ''http://evil.com/p''
       = Inr (emptyURL\<lparr>Scheme := ''http'', Host := ''evil.com'', Path := ''/p''\<rparr>)
   \<and> Host (emptyURL\<lparr>Scheme := ''http'', Host := ''evil.com'', Path := ''/p''\<rparr>) \<noteq> ''a.com''"
  by code_simp

end
